theory Spec2Isabelle
  imports Complex_Main "HOL-Library.List_Lexorder" "HOL-Library.Char_ord"
    "HOL-Library.Product_Lexorder" "HOL-Library.AList" "HOL-Library.Multiset"
begin

section \<open>The host language: strings and numbers\<close>

text \<open>
  The plugin is TypeScript. Its strings are modelled as \<^typ>\<open>string\<close> (one \<^typ>\<open>char\<close>
  per code unit), its \<^verbatim>\<open>Map\<close> objects as association lists in insertion order
  (\<^const>\<open>AList.update\<close> keeps the position of a key that is set again, as \<^verbatim>\<open>Map.set\<close>
  does) and its \<^verbatim>\<open>Set\<close> objects as duplicate-free lists in insertion order.
  This section holds the built-in string functions the sources call.
\<close>

text \<open>\<^verbatim>\<open>String.prototype.trim\<close>: the ASCII white space and line terminators.\<close>

definition isSpace :: "char \<Rightarrow> bool" where
  "isSpace c = (c = CHR '' '' \<or> c = CHR 0x09 \<or> c = CHR 0x0A \<or> c = CHR 0x0B \<or>
                c = CHR 0x0C \<or> c = CHR 0x0D)"

definition trim :: "string \<Rightarrow> string" where
  "trim s = rev (dropWhile isSpace (rev (dropWhile isSpace s)))"

text \<open>\<^verbatim>\<open>s.split(sep)\<close> for a one-character separator: never empty, \<^verbatim>\<open>''.split(',')\<close> is
  \<^verbatim>\<open>['']\<close>.\<close>

fun splitOn :: "char \<Rightarrow> string \<Rightarrow> string list" where
  "splitOn sep [] = [[]]"
| "splitOn sep (c # cs) =
     (if c = sep then [] # splitOn sep cs
      else (case splitOn sep cs of [] \<Rightarrow> [[c]] | w # ws \<Rightarrow> (c # w) # ws))"

text \<open>\<^verbatim>\<open>s.includes(pat)\<close>.\<close>

fun includesStr :: "string \<Rightarrow> string \<Rightarrow> bool" where
  "includesStr [] pat = (pat = [])"
| "includesStr (c # cs) pat = (take (length pat) (c # cs) = pat \<or> includesStr cs pat)"

text \<open>\<^verbatim>\<open>xs.join(sep)\<close>.\<close>

fun join :: "string \<Rightarrow> string list \<Rightarrow> string" where
  "join sep [] = []"
| "join sep [x] = x"
| "join sep (x # y # ys) = x @ sep @ join sep (y # ys)"

text \<open>\<^verbatim>\<open>new Set(xs)\<close>: the elements in order of first insertion.\<close>

definition newSet :: "'a list \<Rightarrow> 'a list" where
  "newSet xs = foldl (\<lambda>acc x. if x \<in> set acc then acc else acc @ [x]) [] xs"

text \<open>Decimal digits, \<^verbatim>\<open>String(n)\<close> for an integer (numbers are integers of
  unbounded size) and \<^verbatim>\<open>padStart\<close>.\<close>

definition isDigit :: "char \<Rightarrow> bool" where
  "isDigit c = (c \<in> set ''0123456789'')"

definition digitVal :: "char \<Rightarrow> int" where
  "digitVal c = of_char c - 48"

definition intOfDigits :: "string \<Rightarrow> int" where
  "intOfDigits ds = foldl (\<lambda>a c. 10 * a + digitVal c) 0 ds"

function showDigits :: "int \<Rightarrow> string" where
  "showDigits n = (if n < 10 then [''0123456789'' ! nat n]
                   else showDigits (n div 10) @ [''0123456789'' ! nat (n mod 10)])"
  by pat_completeness auto
termination
  by (relation "measure nat") auto

declare showDigits.simps [simp del]

definition showInt :: "int \<Rightarrow> string" where
  "showInt i = (if i < 0 then CHR ''-'' # showDigits (- i) else showDigits i)"

definition padStart :: "nat \<Rightarrow> char \<Rightarrow> string \<Rightarrow> string" where
  "padStart n c s = replicate (n - length s) c @ s"

section \<open>Dates (date-utils)\<close>

text \<open>
  A JavaScript \<^verbatim>\<open>Date\<close> is a time value, and what a text denotes, which calendar day a
  time value falls on and what the next day is are decided by the engine and the time zone
  the plugin runs in. A value of the type \<open>'d\<close> stands for the time value of a valid
  \<^verbatim>\<open>Date\<close>: \<^verbatim>\<open>a < b\<close> on two dates is the order of \<open>'d\<close>, a linear order as that of the
  numbers, and \<^verbatim>\<open>a.getTime() === b.getTime()\<close> is its equality. Everything else the sources
  do with a \<^verbatim>\<open>Date\<close> is a field of the runtime \<open>rt\<close> that the functions of the model take:
  \<^verbatim>\<open>new Date(text)\<close>, with \<^const>\<open>None\<close> for a result whose \<^verbatim>\<open>getTime()\<close> is \<^verbatim>\<open>NaN\<close>;
  \<^verbatim>\<open>e = new Date(a); e.setDate(e.getDate() + 1)\<close>, the next day;
  and the local getters \<^verbatim>\<open>getFullYear()\<close>, \<^verbatim>\<open>getMonth()\<close> (from 0) and \<^verbatim>\<open>getDate()\<close>.
  The general theorems hold for every runtime, whatever its parser accepts and whatever its
  time zone does at a change of offset.
\<close>

record 'd jsRuntime =
  newDate :: "string \<Rightarrow> 'd option"
  nextDay :: "'d \<Rightarrow> 'd"
  getFullYear :: "'d \<Rightarrow> int"
  getMonth :: "'d \<Rightarrow> int"
  getDate :: "'d \<Rightarrow> int"



text \<open>The two anchored patterns of \<^verbatim>\<open>parseObsidianDate\<close>:
  \<^verbatim>\<open>/^\d{4}-\d{2}-\d{2}$/\<close> and \<^verbatim>\<open>/^\d{4}-\d{2}-\d{2} \d{2}:\d{2}(:\d{2})?$/\<close>.\<close>

definition isDateOnly :: "string \<Rightarrow> bool" where
  "isDateOnly s =
     (length s = 10 \<and> list_all isDigit (take 4 s) \<and> s ! 4 = CHR ''-'' \<and>
      list_all isDigit (take 2 (drop 5 s)) \<and> s ! 7 = CHR ''-'' \<and>
      list_all isDigit (take 2 (drop 8 s)))"

definition isDateTime :: "string \<Rightarrow> bool" where
  "isDateTime s =
     ((length s = 16 \<or> length s = 19) \<and> isDateOnly (take 10 s) \<and> s ! 10 = CHR '' '' \<and>
      list_all isDigit (take 2 (drop 11 s)) \<and> s ! 13 = CHR '':'' \<and>
      list_all isDigit (take 2 (drop 14 s)) \<and>
      (if length s = 19 then s ! 16 = CHR '':'' \<and> list_all isDigit (take 2 (drop 17 s))
       else True))"

text \<open>\<^verbatim>\<open>s.replace(' ', 'T')\<close> with a string pattern: the first occurrence only.\<close>

fun replaceFirst :: "char \<Rightarrow> char \<Rightarrow> string \<Rightarrow> string" where
  "replaceFirst a b [] = []"
| "replaceFirst a b (c # cs) = (if c = a then b # cs else c # replaceFirst a b cs)"

text \<open>
  \<^verbatim>\<open>parseObsidianDate(value)\<close>. Every caller in the plugin passes a string or null, so the
  argument is a \<^typ>\<open>string option\<close> (the branches for a \<^verbatim>\<open>Date\<close> and for a number are not
  reached). Each of the three branches hands a text to \<^verbatim>\<open>new Date\<close> and returns null for
  an invalid result.
\<close>

definition parseObsidianDate :: "'d jsRuntime \<Rightarrow> string option \<Rightarrow> 'd option" where
  "parseObsidianDate rt v =
     (case v of
        None \<Rightarrow> None
      | Some s \<Rightarrow>
          (let trimmed = trim s in
           if trimmed = [] then None
           else if isDateOnly trimmed then newDate rt (trimmed @ ''T00:00:00'')
           else if isDateTime trimmed then newDate rt (replaceFirst (CHR '' '') (CHR ''T'') trimmed)
           else newDate rt trimmed))"

text \<open>\<^verbatim>\<open>formatDateForGantt(date)\<close>: the year as \<^verbatim>\<open>${y}\<close>, month and day padded to two
  digits.\<close>

definition formatDateForGantt :: "'d jsRuntime \<Rightarrow> 'd \<Rightarrow> string" where
  "formatDateForGantt rt date =
     (let y = getFullYear rt date;
          m = padStart 2 (CHR ''0'') (showInt (getMonth rt date + 1));
          d = padStart 2 (CHR ''0'') (showInt (getDate rt date))
      in showInt y @ ''-'' @ m @ ''-'' @ d)"

subsection \<open>A runtime with a constant offset from UTC\<close>

text \<open>
  The instances are computed in one runtime, \<open>fixedZone\<close>: a time zone whose offset from
  UTC never changes (\<^verbatim>\<open>TZ=UTC\<close>, for one) and a parser that reads the date-time form of the
  language standard as the V8 engine does. In such a zone a time value and the local fields
  it shows determine each other, the order of time values is the lexicographic order of the
  fields, and the next day has the same time of day. A valid \<^verbatim>\<open>Date\<close> is kept as its
  fields: the year, the month from 1 to 12, the day of the month and the milliseconds since
  local midnight. Years are unbounded (the limit of \<open>8.64e15\<close> milliseconds on a time value
  is not modelled).
\<close>

type_synonym LocalTime = "int \<times> int \<times> int \<times> int"

definition isLeapYear :: "int \<Rightarrow> bool" where
  "isLeapYear y = ((y mod 4 = 0 \<and> y mod 100 \<noteq> 0) \<or> y mod 400 = 0)"

definition daysInMonth :: "int \<Rightarrow> int \<Rightarrow> int" where
  "daysInMonth y m =
     (if m = 2 then (if isLeapYear y then 29 else 28)
      else if m = 4 \<or> m = 6 \<or> m = 9 \<or> m = 11 then 30 else 31)"

text \<open>The same local time on the next calendar day.\<close>

fun addOneDay :: "LocalTime \<Rightarrow> LocalTime" where
  "addOneDay (y, m, d, ms) =
     (if d < daysInMonth y m then (y, m, d + 1, ms)
      else if m < 12 then (y, m + 1, 1, ms)
      else (y + 1, 1, 1, ms))"

text \<open>
  The fields of a date-time text, as V8 reads them in local time. The month is from 1 to 12,
  the day from 1 to 31 whatever the month, minutes and seconds up to 59, the hour up to 23,
  or 24 with zero minutes and seconds (the midnight that ends the day); other values give an
  invalid date. A day beyond the last day of its month is counted on into the next month:
  30 February 2026 is 2 March 2026. (December has 31 days, so the year never changes.)
\<close>

definition newDateLocal :: "int \<Rightarrow> int \<Rightarrow> int \<Rightarrow> int \<Rightarrow> int \<Rightarrow> int \<Rightarrow> LocalTime option" where
  "newDateLocal y m d h mi s =
     (if 1 \<le> m \<and> m \<le> 12 \<and> 1 \<le> d \<and> d \<le> 31 \<and> mi \<le> 59 \<and> s \<le> 59 then
        (if h \<le> 23 then
           (if d \<le> daysInMonth y m then Some (y, m, d, (h * 3600 + mi * 60 + s) * 1000)
            else Some (y, m + 1, d - daysInMonth y m, (h * 3600 + mi * 60 + s) * 1000))
         else if h = 24 \<and> mi = 0 \<and> s = 0 then
           (if d \<le> daysInMonth y m then Some (addOneDay (y, m, d, 0))
            else Some (addOneDay (y, m + 1, d - daysInMonth y m, 0)))
         else None)
      else None)"

text \<open>\<^verbatim>\<open>new Date(text)\<close> for the texts \<^verbatim>\<open>YYYY-MM-DDTHH:MM\<close> and \<^verbatim>\<open>YYYY-MM-DDTHH:MM:SS\<close>,
  the two forms the strict branches of \<^const>\<open>parseObsidianDate\<close> produce. A text of any
  other form, which an engine's own parser may or may not accept, is an invalid date in this
  runtime; no instance depends on one.\<close>

definition isIsoLocal :: "string \<Rightarrow> bool" where
  "isIsoLocal s = (10 < length s \<and> s ! 10 = CHR ''T'' \<and> isDateTime (s[10 := CHR '' '']))"

definition parseIsoLocal :: "string \<Rightarrow> LocalTime option" where
  "parseIsoLocal s =
     (if isIsoLocal s then
        newDateLocal (intOfDigits (take 4 s)) (intOfDigits (take 2 (drop 5 s)))
          (intOfDigits (take 2 (drop 8 s))) (intOfDigits (take 2 (drop 11 s)))
          (intOfDigits (take 2 (drop 14 s)))
          (if length s = 19 then intOfDigits (take 2 (drop 17 s)) else 0)
      else None)"

definition fixedZone :: "LocalTime jsRuntime" where
  "fixedZone =
     \<lparr>newDate = parseIsoLocal, nextDay = addOneDay,
      getFullYear = (\<lambda>(y, m, d, ms). y), getMonth = (\<lambda>(y, m, d, ms). m - 1),
      getDate = (\<lambda>(y, m, d, ms). d)\<rparr>"

section \<open>Records, role assignments and tasks (task-mapper)\<close>

text \<open>
  A property value of the host (\<^verbatim>\<open>Value\<close>) is seen by the plugin through its class and
  its text: \<^verbatim>\<open>DateValue\<close> carries the text of \<^verbatim>\<open>val.dateOnly().toString()\<close>, the other
  classes the text of \<^verbatim>\<open>val.toString()\<close>. \<^verbatim>\<open>entry.getValue(p)\<close> is a \<^typ>\<open>'a option\<close>:
  \<^const>\<open>None\<close> is JavaScript's \<^verbatim>\<open>null\<close>, \<open>Some NullValue\<close> is the host's null object.
\<close>

datatype Value = NullValue | DateValue string | NumberValue string | OtherValue string

record BasesEntry =
  path :: string
  basename :: string
  props :: "string \<Rightarrow> Value option"

definition getValue :: "BasesEntry \<Rightarrow> string \<Rightarrow> Value option" where
  "getValue entry propId = props entry propId"

record TaskMapperConfig =
  startProperty :: "string option"
  endProperty :: "string option"
  labelProperty :: "string option"
  dependenciesProperty :: "string option"
  colorByProperty :: "string option"
  progressProperty :: "string option"
  showProgress :: bool

record GanttTask =
  id_task :: string
  name :: string
  start :: string
  end_task :: string
  progress :: real
  dependencies :: string
  custom_class :: string
  filePath :: string
  isMilestone :: bool

text \<open>A property id used as a condition (\<^verbatim>\<open>if (config.endProperty)\<close>): null and the empty
  string are both false.\<close>

definition role :: "string option \<Rightarrow> string option" where
  "role p = (case p of None \<Rightarrow> None | Some s \<Rightarrow> if s = [] then None else Some s)"

definition COLOR_CLASS_COUNT :: nat where
  "COLOR_CLASS_COUNT = 8"

definition extractRawValue :: "Value option \<Rightarrow> string option" where
  "extractRawValue val =
     (case val of
        None \<Rightarrow> None
      | Some NullValue \<Rightarrow> None
      | Some (DateValue s) \<Rightarrow> Some s
      | Some (NumberValue s) \<Rightarrow> Some s
      | Some (OtherValue s) \<Rightarrow> Some s)"

definition makeTaskId :: "string \<Rightarrow> string" where
  "makeTaskId filePath' = map (\<lambda>c. if c = CHR '' '' then CHR ''_'' else c) filePath'"

text \<open>\<^verbatim>\<open>path.replace(/\.[^.]+$/, '')\<close>: the last dot and what follows it are removed when
  something follows it.\<close>

definition stripExtension :: "string \<Rightarrow> string" where
  "stripExtension p =
     (let ext = takeWhile (\<lambda>c. c \<noteq> CHR ''.'') (rev p) in
      if ext \<noteq> [] \<and> length ext < length p then take (length p - length ext - 1) p else p)"

text \<open>First pass of \<^verbatim>\<open>mapEntriesToTasks\<close>: the name index, basename and path without
  extension of every entry, a later entry overwriting an earlier one.\<close>

definition buildNameToId :: "BasesEntry list \<Rightarrow> (string \<times> string) list" where
  "buildNameToId entries =
     foldl (\<lambda>nameToId entry.
              AList.update (stripExtension (path entry)) (makeTaskId (path entry))
                (AList.update (basename entry) (makeTaskId (path entry)) nameToId))
       [] entries"

text \<open>The colour index of each distinct value of the colour property, in first-seen order.\<close>

definition buildColorValues :: "TaskMapperConfig \<Rightarrow> BasesEntry list \<Rightarrow> (string \<times> nat) list" where
  "buildColorValues config entries =
     (case role (colorByProperty config) of
        None \<Rightarrow> []
      | Some p \<Rightarrow>
          foldl (\<lambda>colorValues entry.
                   (case extractRawValue (getValue entry p) of
                      None \<Rightarrow> colorValues
                    | Some raw \<Rightarrow>
                        if map_of colorValues raw = None
                        then AList.update raw (length colorValues mod COLOR_CLASS_COUNT) colorValues
                        else colorValues))
            [] entries)"

subsection \<open>Dates of a task\<close>

definition entryStartDate ::
  "'d jsRuntime \<Rightarrow> TaskMapperConfig \<Rightarrow> BasesEntry \<Rightarrow> 'd option" where
  "entryStartDate rt config entry =
     (case role (startProperty config) of
        None \<Rightarrow> None
      | Some p \<Rightarrow> parseObsidianDate rt (extractRawValue (getValue entry p)))"

text \<open>The end date as parsed, before any default: \<^const>\<open>None\<close> when no end role is
  assigned, or the value is absent or does not parse.\<close>

definition entryEndDate ::
  "'d jsRuntime \<Rightarrow> TaskMapperConfig \<Rightarrow> BasesEntry \<Rightarrow> 'd option" where
  "entryEndDate rt config entry =
     (case role (endProperty config) of
        None \<Rightarrow> None
      | Some p \<Rightarrow> parseObsidianDate rt (extractRawValue (getValue entry p)))"

text \<open>Lines 128 to 138: the default of one day, then the repair of an inverted range.\<close>

definition defaultedEnd :: "('d :: linorder) jsRuntime \<Rightarrow> 'd \<Rightarrow> 'd option \<Rightarrow> 'd" where
  "defaultedEnd rt startDate parsedEnd =
     (let endDate = (case parsedEnd of None \<Rightarrow> nextDay rt startDate | Some e \<Rightarrow> e)
      in if endDate < startDate then nextDay rt startDate else endDate)"

subsection \<open>Label\<close>

definition entryName :: "TaskMapperConfig \<Rightarrow> BasesEntry \<Rightarrow> string" where
  "entryName config entry =
     (case role (labelProperty config) of
        None \<Rightarrow> basename entry
      | Some p \<Rightarrow>
          (case extractRawValue (getValue entry p) of
             None \<Rightarrow> basename entry
           | Some raw \<Rightarrow> if trim raw \<noteq> [] then raw else basename entry))"

subsection \<open>Progress\<close>

text \<open>
  A JavaScript number is modelled by the value it denotes: not-a-number, the two infinities,
  or a real (the rounding of a decimal literal to the nearest double is not modelled).
  \<^verbatim>\<open>parseFloat\<close> skips leading white space and reads the longest prefix that is a decimal
  literal: a sign, then \<^verbatim>\<open>Infinity\<close> or digits with an optional fraction and exponent.
  \<open>parseFloatRest\<close> gives the number together with the text left unread after it.
\<close>

datatype jsnum = NaN | PosInf | NegInf | Fin real

definition parseExponent :: "string \<Rightarrow> int \<times> string" where
  "parseExponent s =
     (if take 1 s = ''e'' \<or> take 1 s = ''E'' then
        (let neg = (take 1 (drop 1 s) = ''-'');
             t = (if take 1 (drop 1 s) = ''-'' \<or> take 1 (drop 1 s) = ''+'' then drop 2 s
                  else drop 1 s);
             ds = takeWhile isDigit t
         in if ds = [] then (0, s)
            else (if neg then - intOfDigits ds else intOfDigits ds, drop (length ds) t))
      else (0, s))"

definition parseFloatRest :: "string \<Rightarrow> jsnum \<times> string" where
  "parseFloatRest str =
     (let s0 = dropWhile isSpace str;
          neg = (take 1 s0 = ''-'');
          s1 = (if take 1 s0 = ''-'' \<or> take 1 s0 = ''+'' then drop 1 s0 else s0)
      in if take 8 s1 = ''Infinity'' then (if neg then NegInf else PosInf, drop 8 s1)
         else
           (let ip = takeWhile isDigit s1;
                r1 = drop (length ip) s1;
                hasDot = (take 1 r1 = ''.'');
                fp = (if hasDot then takeWhile isDigit (drop 1 r1) else []);
                r2 = (if hasDot then drop (1 + length fp) r1 else r1)
            in if ip = [] \<and> fp = [] then (NaN, str)
               else
                 (let m = real_of_int (intOfDigits (ip @ fp)) / 10 ^ length fp;
                      e = fst (parseExponent r2);
                      v = (if e < 0 then m / 10 ^ nat (- e) else m * 10 ^ nat e)
                  in (Fin (if neg then - v else v), snd (parseExponent r2)))))"

definition parseFloat :: "string \<Rightarrow> jsnum" where
  "parseFloat str = fst (parseFloatRest str)"

text \<open>A text that is a number as a whole: \<^verbatim>\<open>parseFloat\<close> reads a number from it and leaves
  nothing but white space unread.\<close>

definition isDecimalNumber :: "string \<Rightarrow> bool" where
  "isDecimalNumber str =
     (fst (parseFloatRest str) \<noteq> NaN \<and> dropWhile isSpace (snd (parseFloatRest str)) = [])"

text \<open>\<^verbatim>\<open>Math.max(0, Math.min(100, num))\<close> for a number that is not \<^verbatim>\<open>NaN\<close>.\<close>

definition clampProgress :: "jsnum \<Rightarrow> real" where
  "clampProgress num =
     (case num of
        NaN \<Rightarrow> 0
      | PosInf \<Rightarrow> 100
      | NegInf \<Rightarrow> 0
      | Fin x \<Rightarrow> max 0 (min 100 x))"

definition entryProgress :: "TaskMapperConfig \<Rightarrow> BasesEntry \<Rightarrow> real" where
  "entryProgress config entry =
     (if showProgress config then
        (case role (progressProperty config) of
           None \<Rightarrow> 0
         | Some p \<Rightarrow>
             (case extractRawValue (getValue entry p) of
                None \<Rightarrow> 0
              | Some raw \<Rightarrow>
                  (let num = parseFloat raw in
                   if num \<noteq> NaN then clampProgress num else 0)))
      else 0)"

subsection \<open>Dependencies\<close>

text \<open>
  One attempt of \<^verbatim>\<open>/\[\[([^\]|]+)(?:\|[^\]]+)?\]\]/\<close> at the start of \<open>s\<close>: the captured
  target and the text after the match. Both character classes are read greedily and the
  character that stops either of them cannot begin what must follow, so no shorter reading
  matches when the longest does not.
\<close>

definition matchWikiLink :: "string \<Rightarrow> (string \<times> string) option" where
  "matchWikiLink s =
     (if take 2 s = ''[['' then
        (let target = takeWhile (\<lambda>c. c \<noteq> CHR '']'' \<and> c \<noteq> CHR ''|'') (drop 2 s);
             r1 = drop (2 + length target) s
         in if target = [] then None
            else if take 2 r1 = '']]'' then Some (target, drop 2 r1)
            else if take 1 r1 = ''|'' then
              (let alias = takeWhile (\<lambda>c. c \<noteq> CHR '']'') (drop 1 r1);
                   r2 = drop (1 + length alias) r1
               in if alias \<noteq> [] \<and> take 2 r2 = '']]'' then Some (target, drop 2 r2) else None)
            else None)
      else None)"

text \<open>The \<^verbatim>\<open>while ((match = wikiLinkRegex.exec(depStr)) !== null)\<close> loop of the global
  pattern: the captured targets from left to right, each search starting where the last
  match ended.\<close>

function wikiLinkTargets :: "string \<Rightarrow> string list" where
  "wikiLinkTargets s =
     (if s = [] then []
      else (case matchWikiLink s of
              None \<Rightarrow> wikiLinkTargets (tl s)
            | Some (target, rest) \<Rightarrow> target # wikiLinkTargets rest))"
  by pat_completeness auto
termination
proof (relation "measure length", goal_cases)
  case 1
  show ?case by simp
next
  case (2 s)
  then show ?case by (cases s) simp_all
next
  case (3 s x2 target rest)
  then have "matchWikiLink s = Some (target, rest)" by simp
  moreover from 3 have "s \<noteq> []" by simp
  ultimately have "length rest < length s"
    by (cases s) (auto simp: matchWikiLink_def Let_def split: if_splits)
  then show ?case by simp
qed

declare wikiLinkTargets.simps [simp del]

text \<open>\<^verbatim>\<open>const targetId = nameToId.get(x); if (targetId) depIds.push(targetId)\<close>.\<close>

definition lookupId :: "(string \<times> string) list \<Rightarrow> string \<Rightarrow> string list" where
  "lookupId nameToId x =
     (case map_of nameToId x of
        None \<Rightarrow> []
      | Some targetId \<Rightarrow> if targetId \<noteq> [] then [targetId] else [])"

text \<open>Lines 169 to 191: the ids of the bracketed links, then the plain names.\<close>

definition resolveDepIds :: "(string \<times> string) list \<Rightarrow> string \<Rightarrow> string list" where
  "resolveDepIds nameToId depStr =
     (let depIds = concat (map (\<lambda>linkTarget. lookupId nameToId (trim linkTarget))
                            (wikiLinkTargets depStr))
      in if depIds = [] \<and> \<not> includesStr depStr ''[[''
         then concat (map (lookupId nameToId)
                (filter (\<lambda>s. s \<noteq> []) (map trim (splitOn (CHR '','') depStr))))
         else depIds)"

definition entryDependencies ::
  "TaskMapperConfig \<Rightarrow> (string \<times> string) list \<Rightarrow> BasesEntry \<Rightarrow> string" where
  "entryDependencies config nameToId entry =
     (case role (dependenciesProperty config) of
        None \<Rightarrow> []
      | Some p \<Rightarrow>
          (case extractRawValue (getValue entry p) of
             None \<Rightarrow> []
           | Some raw \<Rightarrow> join '', '' (resolveDepIds nameToId raw)))"

subsection \<open>Colour class\<close>

definition entryColorClass ::
  "TaskMapperConfig \<Rightarrow> (string \<times> nat) list \<Rightarrow> BasesEntry \<Rightarrow> string" where
  "entryColorClass config colorValues entry =
     (case role (colorByProperty config) of
        None \<Rightarrow> []
      | Some p \<Rightarrow>
          (case extractRawValue (getValue entry p) of
             None \<Rightarrow> []
           | Some raw \<Rightarrow>
               (case map_of colorValues raw of
                  None \<Rightarrow> []
                | Some idx \<Rightarrow> ''gantt-color-'' @ showInt (int idx))))"

subsection \<open>One record\<close>

text \<open>The body of the main loop of \<^verbatim>\<open>mapEntriesToTasks\<close>; \<^const>\<open>None\<close> is its
  \<^verbatim>\<open>continue\<close>.\<close>

definition mapEntry ::
  "('d :: linorder) jsRuntime \<Rightarrow> TaskMapperConfig \<Rightarrow> (string \<times> string) list \<Rightarrow>
     (string \<times> nat) list \<Rightarrow> BasesEntry \<Rightarrow> GanttTask option" where
  "mapEntry rt config nameToId colorValues entry =
     (case entryStartDate rt config entry of
        None \<Rightarrow> None
      | Some startDate \<Rightarrow>
          (let endDate = defaultedEnd rt startDate (entryEndDate rt config entry);
               color = entryColorClass config colorValues entry;
               milestone = (startDate = endDate)
           in Some \<lparr>id_task = makeTaskId (path entry),
                    name = entryName config entry,
                    start = formatDateForGantt rt startDate,
                    end_task = formatDateForGantt rt
                                 (if milestone then nextDay rt startDate else endDate),
                    progress = entryProgress config entry,
                    dependencies = entryDependencies config nameToId entry,
                    custom_class = (if milestone \<and> color = [] then ''gantt-milestone'' else color),
                    filePath = path entry,
                    isMilestone = milestone\<rparr>))"

section \<open>Dependency order (sortByDependencies)\<close>

definition buildTaskMap :: "GanttTask list \<Rightarrow> (string \<times> GanttTask) list" where
  "buildTaskMap tasks = foldl (\<lambda>taskMap t. AList.update (id_task t) t taskMap) [] tasks"

text \<open>The dependency ids of one task: the trimmed, non-empty pieces of its dependency text
  that are ids of \<open>taskMap\<close>.\<close>

definition parseDeps :: "(string \<times> GanttTask) list \<Rightarrow> GanttTask \<Rightarrow> string list" where
  "parseDeps taskMap t =
     (if dependencies t \<noteq> [] then
        newSet (filter (\<lambda>i. i \<noteq> [] \<and> map_of taskMap i \<noteq> None)
                 (map trim (splitOn (CHR '','') (dependencies t))))
      else [])"

definition buildDepsOf ::
  "(string \<times> GanttTask) list \<Rightarrow> GanttTask list \<Rightarrow> (string \<times> string list) list" where
  "buildDepsOf taskMap tasks =
     foldl (\<lambda>depsOf t. AList.update (id_task t) (parseDeps taskMap t) depsOf) [] tasks"

text \<open>\<^verbatim>\<open>[...depsOf.get(id)!].every(d => placed.has(d))\<close>; every id of \<open>remaining\<close> is a key
  of \<open>depsOf\<close> and of \<open>taskMap\<close>, so the \<^const>\<open>None\<close> cases below are never reached.\<close>

definition allMet :: "(string \<times> string list) list \<Rightarrow> string list \<Rightarrow> string \<Rightarrow> bool" where
  "allMet depsOf placed i =
     (case map_of depsOf i of
        None \<Rightarrow> False
      | Some deps \<Rightarrow> list_all (\<lambda>d. d \<in> set placed) deps)"

definition getTasks :: "(string \<times> GanttTask) list \<Rightarrow> string list \<Rightarrow> GanttTask list" where
  "getTasks taskMap ids =
     concat (map (\<lambda>i. case map_of taskMap i of None \<Rightarrow> [] | Some t \<Rightarrow> [t]) ids)"

text \<open>
  The \<^verbatim>\<open>while (remaining.size > 0)\<close> loop. \<^verbatim>\<open>Array.prototype.sort\<close> is stable and the
  comparison is \<^verbatim>\<open>a.start.localeCompare(b.start)\<close>: it is modelled by \<^const>\<open>sort_key\<close> on
  the lexicographic order of strings, with which the collation agrees on strings of digits
  and hyphens. The source builds \<open>taskMap\<close> and \<open>depsOf\<close> once, before the loop; both are
  functions of \<open>tasks\<close> alone, and the model computes them from \<open>tasks\<close> in every round.
  \<open>sorted'\<close> is the array \<^verbatim>\<open>sorted\<close> of the source.
\<close>

function sortLoop ::
  "GanttTask list \<Rightarrow> GanttTask list \<Rightarrow> string list \<Rightarrow> string list \<Rightarrow> GanttTask list" where
  "sortLoop tasks sorted' placed remaining =
     (if remaining = [] then sorted'
      else
        (let taskMap = buildTaskMap tasks;
             depsOf = buildDepsOf taskMap tasks;
             ready = getTasks taskMap (filter (allMet depsOf placed) remaining)
         in if ready = [] then sorted' @ sort_key start (getTasks taskMap remaining)
            else sortLoop tasks (sorted' @ sort_key start ready)
                   (placed @ map id_task (sort_key start ready))
                   (filter (\<lambda>i. i \<notin> set (map id_task (sort_key start ready))) remaining)))"
  by pat_completeness auto
termination
proof (relation "measure (\<lambda>(tasks, sorted', placed, remaining). length remaining)", goal_cases)
  case 1
  show ?case by simp
next
  case (2 tasks sorted' placed remaining taskMap depsOf ready)
  have key: "map_of (foldl (\<lambda>m t. AList.update (id_task t) t m) m0 ts) i = Some t \<Longrightarrow>
      id_task t = i \<or> map_of m0 i = Some t" for m0 :: "(string \<times> GanttTask) list" and ts i t
  proof (induction ts arbitrary: m0)
    case Nil
    then show ?case by simp
  next
    case (Cons a ts)
    from Cons.prems have "map_of (foldl (\<lambda>m t. AList.update (id_task t) t m)
        (AList.update (id_task a) a m0) ts) i = Some t" by simp
    from Cons.IH [OF this] show ?case
      by (auto simp: update_conv' split: if_splits)
  qed
  from 2 have "ready \<noteq> []" by simp
  then obtain t where r: "t \<in> set ready"
    by (cases ready) auto
  from 2 have rd: "ready = getTasks taskMap (filter (allMet depsOf placed) remaining)"
    and tm: "taskMap = buildTaskMap tasks" by simp_all
  from r rd obtain i where i: "i \<in> set remaining" and t: "map_of taskMap i = Some t"
    by (auto simp: getTasks_def split: option.splits)
  from t tm have "id_task t = i"
    using key [of "[]" tasks i t] by (simp add: buildTaskMap_def)
  with r have "i \<in> set (map id_task (sort_key start ready))" by force
  with i have "length (filter (\<lambda>i. i \<notin> set (map id_task (sort_key start ready))) remaining)
      < length remaining"
    by (metis (mono_tags, lifting) length_filter_less)
  then show ?case by simp
qed

declare sortLoop.simps [simp del]

definition sortByDependencies :: "GanttTask list \<Rightarrow> GanttTask list" where
  "sortByDependencies tasks =
     (if length tasks \<le> 1 then tasks
      else sortLoop tasks [] [] (newSet (map id_task tasks)))"

text \<open>The \<open>ready\<close> array of one iteration of the loop, before it is sorted.\<close>

definition readyTasks :: "GanttTask list \<Rightarrow> string list \<Rightarrow> string list \<Rightarrow> GanttTask list" where
  "readyTasks ts p r =
     getTasks (buildTaskMap ts) (filter (allMet (buildDepsOf (buildTaskMap ts) ts) p) r)"

section \<open>mapEntriesToTasks\<close>

definition mapEntriesToTasks ::
  "('d :: linorder) jsRuntime \<Rightarrow> BasesEntry list \<Rightarrow> TaskMapperConfig \<Rightarrow> GanttTask list" where
  "mapEntriesToTasks rt entries config =
     (if role (startProperty config) = None then []
      else
        (let nameToId = buildNameToId entries;
             colorValues = buildColorValues config entries;
             tasks = List.map_filter (mapEntry rt config nameToId colorValues) entries
         in sortByDependencies tasks))"

section \<open>The tasks of one render pass (gantt-view)\<close>

text \<open>
  \<^verbatim>\<open>createGroupHeaderTask\<close>: the phantom task that heads the rows of one group. Its start is
  the least start string of the group and its end the greatest end string, in the order of
  strings; the object has no \<^verbatim>\<open>isMilestone\<close> field, which reads as false.
\<close>

definition GROUP_HEADER_PREFIX :: string where
  "GROUP_HEADER_PREFIX = ''__group__''"

definition createGroupHeaderTask :: "string \<Rightarrow> int \<Rightarrow> GanttTask list \<Rightarrow> GanttTask option" where
  "createGroupHeaderTask groupLabel groupIndex groupTasks =
     (if length groupTasks = 0 then None
      else
        (let minStart = foldl (\<lambda>minStart t. if start t < minStart then start t else minStart)
                          (start (groupTasks ! 0)) groupTasks;
             maxEnd = foldl (\<lambda>maxEnd t. if end_task t > maxEnd then end_task t else maxEnd)
                        (end_task (groupTasks ! 0)) groupTasks
         in Some \<lparr>id_task = GROUP_HEADER_PREFIX @ showInt groupIndex,
                  name = groupLabel,
                  start = minStart,
                  end_task = maxEnd,
                  progress = 0,
                  dependencies = [],
                  custom_class = ''gantt-group-header'',
                  filePath = [],
                  isMilestone = False\<rparr>))"

text \<open>A group of the host's grouped data: its entries and its key, \<^const>\<open>None\<close> when
  \<^verbatim>\<open>hasKey()\<close> is false, otherwise the text \<^verbatim>\<open>String(group.key)\<close>.\<close>

record BasesEntryGroup =
  key_group :: "string option"
  entries_group :: "BasesEntry list"

text \<open>One round of the loop over the groups in \<^verbatim>\<open>onDataUpdated\<close>: what it pushes to
  \<^verbatim>\<open>tasks\<close>.\<close>

definition groupRows ::
  "('d :: linorder) jsRuntime \<Rightarrow> TaskMapperConfig \<Rightarrow> nat \<Rightarrow> BasesEntryGroup \<Rightarrow> GanttTask list" where
  "groupRows rt config i group' =
     (let groupTasks = mapEntriesToTasks rt (entries_group group') config in
      if length groupTasks = 0 then []
      else
        (let label = (case key_group group' of Some k \<Rightarrow> k | None \<Rightarrow> ''Ungrouped'');
             header = createGroupHeaderTask label (int i) groupTasks
         in (case header of None \<Rightarrow> [] | Some h \<Rightarrow> [h]) @ groupTasks))"

text \<open>
  \<^verbatim>\<open>onDataUpdated\<close>, lines 606 to 625: the list it stores in \<^verbatim>\<open>this.currentTasks\<close> and
  hands to the chart, from the entries \<open>data\<close>, the groups \<open>groupedData\<close> and the mapper
  configuration. This is the list of tasks of one render pass.
\<close>

definition onDataUpdated ::
  "('d :: linorder) jsRuntime \<Rightarrow> BasesEntry list \<Rightarrow> BasesEntryGroup list \<Rightarrow> TaskMapperConfig \<Rightarrow>
     GanttTask list" where
  "onDataUpdated rt data groupedData config =
     (let groups = groupedData;
          hasGroups = (length groups > 1 \<or>
                       (length groups = 1 \<and> key_group (groups ! 0) \<noteq> None))
      in if hasGroups
         then concat (map (\<lambda>i. groupRows rt config i (groups ! i)) [0..<length groups])
         else mapEntriesToTasks rt data config)"

section \<open>The order the specification describes\<close>

text \<open>
  The specification's words: repeatedly select, from the remaining unsorted tasks, the
  subset whose entire dependency set has already been placed; order that subset by ascending
  start-date string; append and mark placed; repeat. If at some iteration no task qualifies,
  append all remaining tasks at once, sorted by start date. The loop is written once, over
  the dependency set \<open>depSet\<close> it is to use.
\<close>

function specLoop ::
  "(GanttTask \<Rightarrow> string list) \<Rightarrow> GanttTask list \<Rightarrow> GanttTask list \<Rightarrow> GanttTask list" where
  "specLoop depSet placed remaining =
     (let ready = filter (\<lambda>t. list_all (\<lambda>d. d \<in> set (map id_task placed)) (depSet t)) remaining
      in if ready = [] then placed @ sort_key start remaining
         else specLoop depSet (placed @ sort_key start ready)
                (filter (\<lambda>t. t \<notin> set ready) remaining))"
  by pat_completeness auto
termination
proof (relation "measure (\<lambda>(depSet, placed, remaining). length remaining)", goal_cases)
  case 1
  show ?case by simp
next
  case (2 depSet placed remaining ready)
  then obtain t where "t \<in> set ready" "t \<in> set remaining"
    by (cases ready) (auto simp: Cons_eq_filter_iff)
  then have "length (filter (\<lambda>t. t \<notin> set ready) remaining) < length remaining"
    by (metis (mono_tags, lifting) length_filter_less)
  then show ?case by simp
qed

declare specLoop.simps [simp del]

text \<open>The ids a task lists as its dependencies.\<close>

definition listedDeps :: "GanttTask \<Rightarrow> string list" where
  "listedDeps t = filter (\<lambda>i. i \<noteq> []) (map trim (splitOn (CHR '','') (dependencies t)))"

text \<open>The order as the specification words it: a task qualifies when every id it lists is
  placed, so a task that lists an id outside the set never qualifies.\<close>

definition specSortLiteral :: "GanttTask list \<Rightarrow> GanttTask list" where
  "specSortLiteral tasks = specLoop listedDeps [] tasks"

text \<open>The same order over the listed ids that name a task of the set.\<close>

definition inSetDeps :: "GanttTask list \<Rightarrow> GanttTask \<Rightarrow> string list" where
  "inSetDeps tasks t = filter (\<lambda>d. d \<in> set (map id_task tasks)) (listedDeps t)"

definition specSort :: "GanttTask list \<Rightarrow> GanttTask list" where
  "specSort tasks = specLoop (inSetDeps tasks) [] tasks"

text \<open>The tasks that qualify in one round of \<^const>\<open>specLoop\<close>.\<close>

definition specReady ::
  "(GanttTask \<Rightarrow> string list) \<Rightarrow> GanttTask list \<Rightarrow> GanttTask list \<Rightarrow> GanttTask list" where
  "specReady depSet placed remaining =
     filter (\<lambda>t. list_all (\<lambda>d. d \<in> set (map id_task placed)) (depSet t)) remaining"

section \<open>Role detection (gantt-view)\<close>

text \<open>\<^verbatim>\<open>id.indexOf('.')\<close> and \<^verbatim>\<open>id.slice(dot + 1)\<close>: the text after the first dot, or all of
  it.\<close>

definition extractPropertyName :: "string \<Rightarrow> string" where
  "extractPropertyName propertyId =
     (if CHR ''.'' \<in> set propertyId then drop 1 (dropWhile (\<lambda>c. c \<noteq> CHR ''.'') propertyId)
      else propertyId)"

text \<open>\<^verbatim>\<open>toLowerCase\<close> on the ASCII letters.\<close>

definition toLowerCase :: "string \<Rightarrow> string" where
  "toLowerCase s =
     map (\<lambda>c. case map_of (zip ''ABCDEFGHIJKLMNOPQRSTUVWXYZ'' ''abcdefghijklmnopqrstuvwxyz'') c of
                 None \<Rightarrow> c | Some l \<Rightarrow> l) s"

definition getName :: "string \<Rightarrow> string" where
  "getName propId =
     filter (\<lambda>c. c \<noteq> CHR ''-'' \<and> c \<noteq> CHR ''_'') (toLowerCase (extractPropertyName propId))"

definition findByKeywords :: "string list \<Rightarrow> string list \<Rightarrow> string option" where
  "findByKeywords props' keywords =
     find (\<lambda>propId. list_ex (\<lambda>k. includesStr (getName propId) k) keywords) props'"

record DetectedRoles =
  start_role :: "string option"
  end_role :: "string option"
  dependencies_role :: "string option"
  progress_role :: "string option"
  colorBy_role :: "string option"

text \<open>The first loop of \<^verbatim>\<open>autoDetectProperties\<close>: the properties of the first entry by the
  class of their value there, as (dateProps, numberProps, stringProps).\<close>

definition classifyProps ::
  "BasesEntry \<Rightarrow> string list \<Rightarrow> string list \<times> string list \<times> string list" where
  "classifyProps firstEntry allProperties =
     foldl (\<lambda>(dateProps, numberProps, stringProps) propId.
              (case getValue firstEntry propId of
                 None \<Rightarrow> (dateProps, numberProps, stringProps)
               | Some (DateValue v) \<Rightarrow> (dateProps @ [propId], numberProps, stringProps)
               | Some (NumberValue v) \<Rightarrow> (dateProps, numberProps @ [propId], stringProps)
               | Some other \<Rightarrow> (dateProps, numberProps, stringProps @ [propId])))
       ([], [], []) allProperties"

definition autoDetectProperties :: "BasesEntry list \<Rightarrow> string list \<Rightarrow> DetectedRoles" where
  "autoDetectProperties entries allProperties =
     (case entries of
        [] \<Rightarrow> \<lparr>start_role = None, end_role = None, dependencies_role = None,
                progress_role = None, colorBy_role = None\<rparr>
      | firstEntry # others \<Rightarrow>
          (case classifyProps firstEntry allProperties of
             (dateProps, numberProps, stringProps) \<Rightarrow>
               (let start0 = findByKeywords dateProps [''start'', ''begin'', ''from'', ''created''];
                    end0 = findByKeywords dateProps
                             [''end'', ''due'', ''finish'', ''deadline'', ''until''];
                    start1 = (if role start0 = None \<and> length dateProps > 0
                              then Some (hd dateProps) else start0);
                    end1 = (if role end0 = None \<and> length dateProps > 1
                            then find (\<lambda>p. Some p \<noteq> start1) dateProps else end0)
                in \<lparr>start_role = start1,
                    end_role = end1,
                    dependencies_role = findByKeywords stringProps
                      [''depend'', ''block'', ''after'', ''prerequisite'', ''requires''],
                    progress_role = findByKeywords numberProps
                      [''progress'', ''percent'', ''completion'', ''complete'', ''done''],
                    colorBy_role = findByKeywords stringProps
                      [''status'', ''priority'', ''type'', ''category'', ''phase'', ''stage'']\<rparr>)))"

section \<open>Writing an edit back (gantt-view)\<close>

text \<open>
  The vault maps a file path to the front matter of that file, a map from keys to values;
  \<^verbatim>\<open>getFileByPath\<close> is the lookup and \<^verbatim>\<open>processFrontMatter\<close> applies the callback to the
  front matter of one file and stores the result, as one step.
\<close>

datatype fmValue = FmText string | FmNumber int

type_synonym frontmatter = "string \<Rightarrow> fmValue option"

type_synonym vault = "string \<Rightarrow> frontmatter option"

definition writeFrontmatter :: "vault \<Rightarrow> string \<Rightarrow> (string \<times> fmValue) list \<Rightarrow> vault" where
  "writeFrontmatter v filePath' updates =
     (case v filePath' of
        None \<Rightarrow> v
      | Some fm \<Rightarrow> v(filePath' \<mapsto> foldl (\<lambda>frontmatter' (key, val). frontmatter'(key \<mapsto> val)) fm updates))"

text \<open>\<^verbatim>\<open>Math.round\<close>.\<close>

definition mathRound :: "real \<Rightarrow> int" where
  "mathRound x = \<lfloor>x + 1 / 2\<rfloor>"

text \<open>\<^verbatim>\<open>findTask\<close> reads the map that \<^verbatim>\<open>onDataUpdated\<close> fills from the tasks it renders.\<close>

definition findTask :: "GanttTask list \<Rightarrow> string \<Rightarrow> GanttTask option" where
  "findTask currentTasks i = map_of (buildTaskMap currentTasks) i"

text \<open>
  The \<^verbatim>\<open>on_progress_change\<close> callback. \<open>displayProgress\<close> is the \<^verbatim>\<open>showProgress\<close> constant
  the chart was created with, \<open>mapperConfig\<close> the result of \<^verbatim>\<open>getTaskMapperConfig()\<close> at
  the time of the call, \<open>task\<close> the task whose bar was dragged; the callback reads its id.
\<close>

definition on_progress_change ::
  "bool \<Rightarrow> GanttTask list \<Rightarrow> TaskMapperConfig \<Rightarrow> vault \<Rightarrow> GanttTask \<Rightarrow> real \<Rightarrow> vault" where
  "on_progress_change displayProgress currentTasks mapperConfig v task newProgress =
     (if \<not> displayProgress then v
      else
        (case findTask currentTasks (id_task task) of
           None \<Rightarrow> v
         | Some ganttTask \<Rightarrow>
             (case role (progressProperty mapperConfig) of
                None \<Rightarrow> v
              | Some p \<Rightarrow>
                  writeFrontmatter v (filePath ganttTask)
                    [(extractPropertyName p, FmNumber (mathRound newProgress))])))"

text \<open>The value of one field of one file, \<^const>\<open>None\<close> when the file or the field is
  missing.\<close>

definition fieldOf :: "vault \<Rightarrow> string \<Rightarrow> string \<Rightarrow> fmValue option" where
  "fieldOf v f k = (case v f of None \<Rightarrow> None | Some fm \<Rightarrow> fm k)"

section \<open>Example records\<close>

text \<open>A note \<open>n.md\<close> with the given property values and a configuration with every role
  but label and colour assigned; the concrete instances below are built from them.\<close>

definition noteFile :: "string \<Rightarrow> (string \<times> Value) list \<Rightarrow> BasesEntry" where
  "noteFile n kv = \<lparr>path = n @ ''.md'', basename = n, props = map_of kv\<rparr>"

definition rolesConfig :: TaskMapperConfig where
  "rolesConfig =
     \<lparr>startProperty = Some ''note.start'', endProperty = Some ''note.end'',
      labelProperty = None, dependenciesProperty = Some ''note.depends-on'',
      colorByProperty = None, progressProperty = Some ''note.progress'', showProgress = True\<rparr>"

text \<open>A vault of two files and a task of the first.\<close>

definition exampleVault :: vault where
  "exampleVault =
     map_of [(''Build.md'', map_of [(''progress'', FmNumber 10), (''status'', FmText ''Doing'')]),
             (''Design.md'', map_of [(''progress'', FmNumber 80)])]"

definition buildTask :: GanttTask where
  "buildTask = \<lparr>id_task = ''Build.md'', name = ''Build'', start = ''2026-03-15'',
     end_task = ''2026-03-16'', progress = 10, dependencies = [], custom_class = [],
     filePath = ''Build.md'', isMilestone = False\<rparr>"

text \<open>Two notes whose paths differ in a space against an underscore, in two groups of a
  grouped view, and a vault that holds both.\<close>

definition spaceNote :: BasesEntry where
  "spaceNote = noteFile ''Task A'' [(''note.start'', DateValue ''2026-03-15''),
                                    (''note.progress'', NumberValue ''10'')]"

definition underscoreNote :: BasesEntry where
  "underscoreNote = noteFile ''Task_A'' [(''note.start'', DateValue ''2026-03-20''),
                                         (''note.progress'', NumberValue ''20'')]"

definition twoGroups :: "BasesEntryGroup list" where
  "twoGroups = [\<lparr>key_group = Some ''Doing'', entries_group = [spaceNote]\<rparr>,
                \<lparr>key_group = Some ''Todo'', entries_group = [underscoreNote]\<rparr>]"

definition twoNotesVault :: vault where
  "twoNotesVault =
     map_of [(''Task A.md'', map_of [(''progress'', FmNumber 10)]),
             (''Task_A.md'', map_of [(''progress'', FmNumber 20)])]"

text \<open>A task with the given id, file path, start and dependency text.\<close>

definition plainTask :: "string \<Rightarrow> string \<Rightarrow> string \<Rightarrow> string \<Rightarrow> GanttTask" where
  "plainTask i f s deps =
     \<lparr>id_task = i, name = f, start = s, end_task = s, progress = 0, dependencies = deps,
      custom_class = [], filePath = f, isMilestone = False\<rparr>"

section \<open>Facts about the task map and the loop\<close>

lemma map_of_foldl_update:
  "map_of (foldl (\<lambda>m t. AList.update (f t) (g t) m) m0 ts) =
     map_of m0 ++ map_of (rev (map (\<lambda>t. (f t, g t)) ts))"
proof (induction ts arbitrary: m0)
  case Nil
  show ?case by simp
next
  case (Cons a ts)
  have "map_of (foldl (\<lambda>m t. AList.update (f t) (g t) m) m0 (a # ts)) =
      map_of (AList.update (f a) (g a) m0) ++ map_of (rev (map (\<lambda>t. (f t, g t)) ts))"
    using Cons.IH [of "AList.update (f a) (g a) m0"] by simp
  also have "\<dots> = map_of m0 ++ map_of (rev (map (\<lambda>t. (f t, g t)) (a # ts)))"
    by (simp add: update_conv' map_add_upd_left fun_eq_iff map_add_def split: option.splits)
  finally show ?case .
qed

lemma buildTaskMap_SomeD:
  assumes "map_of (buildTaskMap ts) i = Some t"
  shows "t \<in> set ts \<and> id_task t = i"
proof -
  from assms have "map_of (rev (map (\<lambda>t. (id_task t, t)) ts)) i = Some t"
    by (simp add: buildTaskMap_def map_of_foldl_update)
  then have "(i, t) \<in> set (rev (map (\<lambda>t. (id_task t, t)) ts))"
    by (rule map_of_SomeD)
  then show ?thesis by auto
qed

lemma buildTaskMap_distinct:
  assumes "distinct (map id_task ts)" and "t \<in> set ts"
  shows "map_of (buildTaskMap ts) (id_task t) = Some t"
proof -
  have "distinct (map fst (rev (map (\<lambda>t. (id_task t, t)) ts)))"
    using assms(1) by (simp add: rev_map [symmetric] comp_def)
  moreover have "(id_task t, t) \<in> set (rev (map (\<lambda>t. (id_task t, t)) ts))"
    using assms(2) by auto
  ultimately have "map_of (rev (map (\<lambda>t. (id_task t, t)) ts)) (id_task t) = Some t"
    by (rule map_of_is_SomeI)
  then show ?thesis by (simp add: buildTaskMap_def map_of_foldl_update)
qed

lemma buildTaskMap_None:
  "map_of (buildTaskMap ts) i = None \<longleftrightarrow> i \<notin> id_task ` set ts"
  by (simp add: buildTaskMap_def map_of_foldl_update map_of_eq_None_iff image_image)

lemma getTasks_set: "set (getTasks (buildTaskMap ts) xs) \<subseteq> set ts"
  by (auto simp: getTasks_def split: option.splits dest: buildTaskMap_SomeD buildTaskMap_SomeD [OF sym])

lemma getTasks_ids:
  "map id_task (getTasks (buildTaskMap ts) xs) =
     filter (\<lambda>i. map_of (buildTaskMap ts) i \<noteq> None) xs"
  by (induction xs) (auto simp: getTasks_def split: option.splits dest: buildTaskMap_SomeD buildTaskMap_SomeD [OF sym])

lemma sortLoop_Nil: "sortLoop ts s p [] = s"
  by (subst sortLoop.simps) simp

lemma sortLoop_stuck:
  "r \<noteq> [] \<Longrightarrow> readyTasks ts p r = [] \<Longrightarrow>
     sortLoop ts s p r = s @ sort_key start (getTasks (buildTaskMap ts) r)"
  by (subst sortLoop.simps) (simp add: readyTasks_def Let_def)

lemma sortLoop_rec:
  "r \<noteq> [] \<Longrightarrow> readyTasks ts p r \<noteq> [] \<Longrightarrow>
     sortLoop ts s p r =
       sortLoop ts (s @ sort_key start (readyTasks ts p r))
         (p @ map id_task (sort_key start (readyTasks ts p r)))
         (filter (\<lambda>i. i \<notin> set (map id_task (sort_key start (readyTasks ts p r)))) r)"
  by (subst sortLoop.simps) (simp add: readyTasks_def Let_def)

lemma sortLoop_induct [case_names Nil stuck rec]:
  assumes "\<And>ts s p. P ts s p []"
    and "\<And>ts s p r. r \<noteq> [] \<Longrightarrow> readyTasks ts p r = [] \<Longrightarrow> P ts s p r"
    and "\<And>ts s p r. r \<noteq> [] \<Longrightarrow> readyTasks ts p r \<noteq> [] \<Longrightarrow>
           P ts (s @ sort_key start (readyTasks ts p r))
             (p @ map id_task (sort_key start (readyTasks ts p r)))
             (filter (\<lambda>i. i \<notin> set (map id_task (sort_key start (readyTasks ts p r)))) r) \<Longrightarrow>
           P ts s p r"
  shows "P ts s p r"
proof (induction ts s p r rule: sortLoop.induct)
  case (1 ts s p r)
  show ?case
  proof (cases "r = []")
    case True
    then show ?thesis using assms(1) by simp
  next
    case False
    show ?thesis
    proof (cases "readyTasks ts p r = []")
      case True
      with False show ?thesis using assms(2) by simp
    next
      case ne: False
      from "1.IH" [OF False refl refl refl] False ne show ?thesis
        using assms(3) [of r ts p s] by (simp add: readyTasks_def)
    qed
  qed
qed

lemma readyTasks_set: "set (readyTasks ts p r) \<subseteq> set ts"
  using getTasks_set by (auto simp: readyTasks_def)

lemma sortLoop_set: "set (sortLoop ts s p r) \<subseteq> set s \<union> set ts"
proof (induction ts s p r rule: sortLoop_induct)
  case (Nil ts s p)
  show ?case by (simp add: sortLoop_Nil)
next
  case (stuck ts s p r)
  then show ?case using getTasks_set [of ts r] by (auto simp: sortLoop_stuck)
next
  case (rec ts s p r)
  then show ?case using readyTasks_set [of ts p r] by (auto simp: sortLoop_rec)
qed

lemma sortByDependencies_set: "set (sortByDependencies ts) \<subseteq> set ts"
  using sortLoop_set [of ts "[]" "[]"] by (auto simp: sortByDependencies_def)

lemma mapEntriesToTasks_mem:
  assumes "t \<in> set (mapEntriesToTasks rt entries config)"
  shows "\<exists>entry \<in> set entries.
    mapEntry rt config (buildNameToId entries) (buildColorValues config entries) entry = Some t"
proof -
  from assms have "t \<in> set (List.map_filter
      (mapEntry rt config (buildNameToId entries) (buildColorValues config entries)) entries)"
    using sortByDependencies_set by (auto simp: mapEntriesToTasks_def Let_def split: if_splits)
  then show ?thesis by (auto simp: List.map_filter_def)
qed


section \<open>Facts about dates and the mapping of one record\<close>



lemma defaultedEnd_eq_start:
  assumes "\<And>a. a < nextDay rt a"
  shows "defaultedEnd rt startDate parsedEnd = startDate \<longleftrightarrow> parsedEnd = Some startDate"
  using assms [of startDate] by (auto simp: defaultedEnd_def Let_def split: option.splits)

text \<open>The runtime \<^const>\<open>fixedZone\<close>: the next day is later, and a later time value never
  falls on an earlier calendar day.\<close>

lemma fixedZone_nextDay_later: "a < nextDay fixedZone a"
  by (cases a) (simp add: fixedZone_def)


lemma clampProgress_range: "0 \<le> clampProgress n \<and> clampProgress n \<le> 100"
  by (cases n) (auto simp: clampProgress_def)

lemma entryProgress_range: "0 \<le> entryProgress config entry \<and> entryProgress config entry \<le> 100"
  using clampProgress_range by (auto simp: entryProgress_def Let_def split: option.splits)

section \<open>Facts about the ids of the sorted tasks\<close>

lemma newSet_foldl:
  "distinct acc \<Longrightarrow>
     distinct (foldl (\<lambda>acc x. if x \<in> set acc then acc else acc @ [x]) acc xs) \<and>
     set (foldl (\<lambda>acc x. if x \<in> set acc then acc else acc @ [x]) acc xs) = set acc \<union> set xs"
  by (induction xs arbitrary: acc) auto

lemma distinct_newSet: "distinct (newSet xs)"
  using newSet_foldl [of "[]" xs] by (simp add: newSet_def)

lemma set_newSet: "set (newSet xs) = set xs"
  using newSet_foldl [of "[]" xs] by (simp add: newSet_def)

lemma distinct_map_sort_key: "distinct (map f (sort_key k xs)) \<longleftrightarrow> distinct (map f xs)"
proof -
  have "mset (map f (sort_key k xs)) = mset (map f xs)" by simp
  then show ?thesis by (rule mset_eq_imp_distinct_iff)
qed

lemma getTasks_ids_distinct: "distinct xs \<Longrightarrow> distinct (map id_task (getTasks (buildTaskMap ts) xs))"
  by (simp add: getTasks_ids)

lemma getTasks_ids_subset: "set (map id_task (getTasks (buildTaskMap ts) xs)) \<subseteq> set xs"
  by (auto simp: getTasks_ids)

lemma readyTasks_ids_distinct: "distinct r \<Longrightarrow> distinct (map id_task (readyTasks ts p r))"
  by (simp add: readyTasks_def getTasks_ids)

lemma readyTasks_ids_subset: "set (map id_task (readyTasks ts p r)) \<subseteq> set r"
  by (auto simp: readyTasks_def getTasks_ids)

lemma sortLoop_distinct:
  "distinct (map id_task s) \<Longrightarrow> distinct r \<Longrightarrow> set (map id_task s) \<inter> set r = {} \<Longrightarrow>
     distinct (map id_task (sortLoop ts s p r))"
proof (induction ts s p r rule: sortLoop_induct)
  case (Nil ts s p)
  then show ?case by (simp add: sortLoop_Nil)
next
  case (stuck ts s p r)
  have "distinct (map id_task (sort_key start (getTasks (buildTaskMap ts) r)))"
    using stuck.prems(2) by (simp add: distinct_map_sort_key getTasks_ids_distinct)
  moreover have "set (map id_task s) \<inter> set (map id_task (sort_key start (getTasks (buildTaskMap ts) r))) = {}"
    using stuck.prems(3) getTasks_ids_subset [of ts r] by auto
  ultimately show ?case using stuck by (simp add: sortLoop_stuck)
next
  case (rec ts s p r)
  let ?rs = "sort_key start (readyTasks ts p r)"
  have d: "distinct (map id_task ?rs)"
    using rec.prems(2) by (simp add: distinct_map_sort_key readyTasks_ids_distinct)
  have sub: "set (map id_task ?rs) \<subseteq> set r"
    using readyTasks_ids_subset [of ts p r] by simp
  have "distinct (map id_task (s @ ?rs))"
    using rec.prems(1,3) d sub by auto
  moreover have "distinct (filter (\<lambda>i. i \<notin> set (map id_task ?rs)) r)"
    using rec.prems(2) by simp
  moreover have "set (map id_task (s @ ?rs)) \<inter> set (filter (\<lambda>i. i \<notin> set (map id_task ?rs)) r) = {}"
    using rec.prems(3) by auto
  ultimately show ?case using rec.IH rec.hyps by (simp add: sortLoop_rec)
qed

lemma sortByDependencies_distinct: "distinct (map id_task (sortByDependencies ts))"
proof (cases "length ts \<le> 1")
  case True
  then show ?thesis by (cases ts) (auto simp: sortByDependencies_def)
next
  case False
  then show ?thesis
    using sortLoop_distinct [of "[]" "newSet (map id_task ts)" ts "[]"]
    by (simp add: sortByDependencies_def distinct_newSet)
qed

text \<open>A render pass without groups is one call of \<^const>\<open>mapEntriesToTasks\<close>, so its ids
  are distinct.\<close>

lemma ungrouped_pass_ids_distinct:
  assumes "groupedData = [] \<or> (length groupedData = 1 \<and> key_group (groupedData ! 0) = None)"
  shows "distinct (map id_task (onDataUpdated rt data groupedData config))"
  using assms
  by (auto simp: onDataUpdated_def Let_def mapEntriesToTasks_def sortByDependencies_distinct)

lemma mapEntry_id:
  "mapEntry rt config nameToId colorValues entry = Some t \<Longrightarrow>
     id_task t = makeTaskId (path entry) \<and> filePath t = path entry"
  by (auto simp: mapEntry_def Let_def split: option.splits)

section \<open>Facts about dependency links\<close>

lemma matchWikiLink_brackets: "matchWikiLink s \<noteq> None \<Longrightarrow> take 2 s = ''[[''"
  by (simp add: matchWikiLink_def split: if_splits)

lemma no_brackets_no_links: "\<not> includesStr s ''[['' \<Longrightarrow> wikiLinkTargets s = []"
proof (induction s rule: wikiLinkTargets.induct)
  case (1 s)
  show ?case
  proof (cases s)
    case Nil
    then show ?thesis by (simp add: wikiLinkTargets.simps [of "[]"])
  next
    case (Cons c cs)
    with "1.prems" have nt: "take 2 s \<noteq> ''[[''" and ni: "\<not> includesStr (tl s) ''[[''"
      by simp_all
    from nt have m: "matchWikiLink s = None"
      using matchWikiLink_brackets [of s] by blast
    from Cons have ne: "s \<noteq> []" by simp
    from "1.IH"(1) [OF ne m ni] have "wikiLinkTargets (tl s) = []" .
    with ne m show ?thesis by (simp add: wikiLinkTargets.simps [of s])
  qed
qed

lemma lookupId_subset: "set (lookupId nameToId x) \<subseteq> snd ` set nameToId"
proof
  fix y assume a: "y \<in> set (lookupId nameToId x)"
  have "map_of nameToId x = Some y"
  proof (cases "map_of nameToId x")
    case None
    with a show ?thesis by (simp add: lookupId_def)
  next
    case (Some z)
    with a show ?thesis by (simp add: lookupId_def split: if_splits)
  qed
  then have "(x, y) \<in> set nameToId" by (rule map_of_SomeD)
  then show "y \<in> snd ` set nameToId" by force
qed

section \<open>Facts about the write to the front matter\<close>

lemma findTask_distinct:
  "distinct (map id_task currentTasks) \<Longrightarrow> t \<in> set currentTasks \<Longrightarrow>
     findTask currentTasks (id_task t) = Some t"
  by (simp add: findTask_def buildTaskMap_distinct)

lemma writeFrontmatter_one:
  "writeFrontmatter v f [(k, x)] =
     (case v f of None \<Rightarrow> v | Some fm \<Rightarrow> v(f \<mapsto> fm(k \<mapsto> x)))"
  by (simp add: writeFrontmatter_def split: option.splits)

lemma writeFrontmatter_frame:
  "(f', k') \<noteq> (f, k) \<Longrightarrow> fieldOf (writeFrontmatter v f [(k, x)]) f' k' = fieldOf v f' k'"
  by (auto simp: writeFrontmatter_one fieldOf_def split: option.splits)

lemma writeFrontmatter_files:
  "(writeFrontmatter v f [(k, x)] f' = None) = (v f' = None)"
  by (auto simp: writeFrontmatter_one split: option.splits)

lemma writeFrontmatter_written:
  "v f \<noteq> None \<Longrightarrow> fieldOf (writeFrontmatter v f [(k, x)]) f k = Some x"
  by (auto simp: writeFrontmatter_one fieldOf_def split: option.splits)

lemma writeFrontmatter_missing: "v f = None \<Longrightarrow> writeFrontmatter v f ups = v"
  by (simp add: writeFrontmatter_def)

section \<open>Facts relating the loop to the order of the specification\<close>

lemma specLoop_stuck:
  "specReady depSet placed remaining = [] \<Longrightarrow>
     specLoop depSet placed remaining = placed @ sort_key start remaining"
  by (subst specLoop.simps) (simp add: specReady_def Let_def)

lemma specLoop_rec:
  "specReady depSet placed remaining \<noteq> [] \<Longrightarrow>
     specLoop depSet placed remaining =
       specLoop depSet (placed @ sort_key start (specReady depSet placed remaining))
         (filter (\<lambda>t. t \<notin> set (specReady depSet placed remaining)) remaining)"
  by (subst specLoop.simps) (simp add: specReady_def Let_def)

lemma specLoop_induct [case_names stuck rec]:
  assumes "\<And>depSet placed remaining. specReady depSet placed remaining = [] \<Longrightarrow>
             P depSet placed remaining"
    and "\<And>depSet placed remaining. specReady depSet placed remaining \<noteq> [] \<Longrightarrow>
           P depSet (placed @ sort_key start (specReady depSet placed remaining))
             (filter (\<lambda>t. t \<notin> set (specReady depSet placed remaining)) remaining) \<Longrightarrow>
           P depSet placed remaining"
  shows "P depSet placed remaining"
proof (induction depSet placed remaining rule: specLoop.induct)
  case (1 depSet placed remaining)
  show ?case
  proof (cases "specReady depSet placed remaining = []")
    case True
    then show ?thesis by (rule assms(1))
  next
    case False
    from "1.IH" [OF refl] False show ?thesis
      using assms(2) [of depSet placed remaining] by (simp add: specReady_def)
  qed
qed

lemma mset_specLoop: "mset (specLoop depSet placed remaining) = mset placed + mset remaining"
proof (induction depSet placed remaining rule: specLoop_induct)
  case (stuck depSet placed remaining)
  then show ?case by (simp add: specLoop_stuck)
next
  case (rec depSet placed remaining)
  have "mset (specReady depSet placed remaining) +
      mset (filter (\<lambda>t. t \<notin> set (specReady depSet placed remaining)) remaining) = mset remaining"
    by (simp add: specReady_def filter_filter [symmetric] del: filter_filter)
       (metis (mono_tags, lifting) filter_cong mset_filter multiset_partition)
  with rec show ?case by (simp add: specLoop_rec add.assoc)
qed


lemma newSet_distinct_foldl:
  "distinct (acc @ xs) \<Longrightarrow>
     foldl (\<lambda>acc x. if x \<in> set acc then acc else acc @ [x]) acc xs = acc @ xs"
  by (induction xs arbitrary: acc) auto

lemma newSet_distinct: "distinct xs \<Longrightarrow> newSet xs = xs"
  using newSet_distinct_foldl [of "[]" xs] by (simp add: newSet_def)

lemma buildDepsOf_distinct:
  assumes "distinct (map id_task ts)" and "t \<in> set ts"
  shows "map_of (buildDepsOf tm ts) (id_task t) = Some (parseDeps tm t)"
proof -
  have "distinct (map fst (rev (map (\<lambda>t. (id_task t, parseDeps tm t)) ts)))"
    using assms(1) by (simp add: rev_map [symmetric] comp_def)
  moreover have "(id_task t, parseDeps tm t) \<in> set (rev (map (\<lambda>t. (id_task t, parseDeps tm t)) ts))"
    using assms(2) by auto
  ultimately have "map_of (rev (map (\<lambda>t. (id_task t, parseDeps tm t)) ts)) (id_task t)
      = Some (parseDeps tm t)"
    by (rule map_of_is_SomeI)
  then show ?thesis by (simp add: buildDepsOf_def map_of_foldl_update)
qed

lemma listedDeps_empty: "dependencies t = [] \<Longrightarrow> listedDeps t = []"
  by (simp add: listedDeps_def trim_def)

lemma set_parseDeps: "set (parseDeps (buildTaskMap ts) t) = set (inSetDeps ts t)"
proof (cases "dependencies t = []")
  case True
  then show ?thesis by (simp add: parseDeps_def inSetDeps_def listedDeps_empty)
next
  case False
  then show ?thesis
    by (auto simp: parseDeps_def inSetDeps_def listedDeps_def set_newSet buildTaskMap_None)
qed

lemma allMet_spec:
  assumes "distinct (map id_task ts)" and "t \<in> set ts"
  shows "allMet (buildDepsOf (buildTaskMap ts) ts) p (id_task t) \<longleftrightarrow>
     list_all (\<lambda>d. d \<in> set p) (inSetDeps ts t)"
  using buildDepsOf_distinct [OF assms, of "buildTaskMap ts"] set_parseDeps [of ts t]
  by (simp add: allMet_def list_all_iff)

lemma getTasks_map_id:
  assumes "distinct (map id_task ts)" and "set xs \<subseteq> set ts"
  shows "getTasks (buildTaskMap ts) (map id_task xs) = xs"
  using assms(2)
proof (induction xs)
  case Nil
  show ?case by (simp add: getTasks_def)
next
  case (Cons x xs)
  then have "map_of (buildTaskMap ts) (id_task x) = Some x"
    using buildTaskMap_distinct [OF assms(1), of x] by simp
  with Cons show ?case by (simp add: getTasks_def)
qed

lemma readyTasks_spec:
  assumes "distinct (map id_task ts)" and "set R \<subseteq> set ts"
  shows "readyTasks ts (map id_task P) (map id_task R) = specReady (inSetDeps ts) P R"
proof -
  have "filter (allMet (buildDepsOf (buildTaskMap ts) ts) (map id_task P)) (map id_task R) =
      map id_task (specReady (inSetDeps ts) P R)"
    unfolding specReady_def filter_map comp_def
    using assms allMet_spec [OF assms(1)] by (intro arg_cong [where f = "map id_task"] filter_cong) auto
  moreover have "set (specReady (inSetDeps ts) P R) \<subseteq> set ts"
    using assms(2) by (auto simp: specReady_def)
  ultimately show ?thesis
    using getTasks_map_id [OF assms(1)] by (simp add: readyTasks_def)
qed

lemma remaining_spec:
  assumes "distinct (map id_task ts)" and "set R \<subseteq> set ts" and "set rs \<subseteq> set ts"
  shows "filter (\<lambda>i. i \<notin> set (map id_task rs)) (map id_task R) =
     map id_task (filter (\<lambda>t. t \<notin> set rs) R)"
proof -
  have inj: "inj_on id_task (set ts)"
    using assms(1) by (simp add: distinct_map)
  have "\<And>t. t \<in> set R \<Longrightarrow> (id_task t \<notin> set (map id_task rs)) = (t \<notin> set rs)"
    using inj assms(2,3) by (auto simp: inj_on_def)
  then show ?thesis
    unfolding filter_map comp_def
    by (intro arg_cong [where f = "map id_task"] filter_cong) auto
qed

lemma sortLoop_specLoop:
  assumes "distinct (map id_task ts)"
  shows "set R \<subseteq> set ts \<Longrightarrow>
     sortLoop ts P (map id_task P) (map id_task R) = specLoop (inSetDeps ts) P R"
proof (induction "inSetDeps ts" P R rule: specLoop_induct)
  case (stuck P R)
  show ?case
  proof (cases "R = []")
    case True
    with stuck show ?thesis by (simp add: sortLoop_Nil specLoop_stuck)
  next
    case False
    with stuck show ?thesis
      using readyTasks_spec [OF assms stuck.prems, of P] getTasks_map_id [OF assms stuck.prems]
      by (simp add: sortLoop_stuck specLoop_stuck)
  qed
next
  case (rec P R)
  let ?ready = "specReady (inSetDeps ts) P R"
  have rt: "readyTasks ts (map id_task P) (map id_task R) = ?ready"
    by (rule readyTasks_spec [OF assms rec.prems])
  from rec.hyps(1) have ne: "R \<noteq> []" by (auto simp: specReady_def)
  have sub: "set (sort_key start ?ready) \<subseteq> set ts"
    using rec.prems by (auto simp: specReady_def)
  have rem: "filter (\<lambda>i. i \<notin> set (map id_task (sort_key start ?ready))) (map id_task R) =
      map id_task (filter (\<lambda>t. t \<notin> set ?ready) R)"
    using remaining_spec [OF assms rec.prems sub] by simp
  have "set (filter (\<lambda>t. t \<notin> set ?ready) R) \<subseteq> set ts"
    using rec.prems by auto
  from rec.hyps(2) [OF this] rec.hyps(1) ne rt rem show ?case
    by (simp add: sortLoop_rec specLoop_rec)
qed

lemma specSort_short: "length ts \<le> 1 \<Longrightarrow> specSort ts = ts"
proof (cases ts)
  case Nil
  then show ?thesis by (simp add: specSort_def specLoop_stuck specReady_def)
next
  case (Cons t us)
  assume "length ts \<le> 1"
  with Cons have ts: "ts = [t]" by simp
  show ?thesis
  proof (cases "specReady (inSetDeps ts) [] ts = []")
    case True
    then show ?thesis by (simp add: specSort_def specLoop_stuck ts)
  next
    case False
    then have r: "specReady (inSetDeps ts) [] ts = [t]"
      by (auto simp: specReady_def ts split: if_splits)
    have "specLoop (inSetDeps ts) [t] [] = [t]"
      by (simp add: specLoop_stuck specReady_def)
    with r False show ?thesis
      using specLoop_rec [of "inSetDeps ts" "[]" ts] by (simp add: specSort_def ts)
  qed
qed

section \<open>Facts about decimal digits\<close>

lemma digit_char:
  assumes "isDigit c"
  shows "0 \<le> digitVal c" and "digitVal c \<le> 9" and "''0123456789'' ! nat (digitVal c) = c"
    and "\<not> isSpace c"
  using assms by (auto simp: isDigit_def digitVal_def isSpace_def)

lemma showDigits_digit: "0 \<le> r \<Longrightarrow> r \<le> 9 \<Longrightarrow> showDigits r = [''0123456789'' ! nat r]"
  by (subst showDigits.simps) simp

lemma showDigits_step:
  "1 \<le> q \<Longrightarrow> 0 \<le> r \<Longrightarrow> r \<le> 9 \<Longrightarrow>
     showDigits (10 * q + r) = showDigits q @ [''0123456789'' ! nat r]"
  by (subst showDigits.simps) simp

lemma show_four:
  assumes "isDigit a" "isDigit b" "isDigit c" "isDigit d" and "1000 \<le> intOfDigits [a, b, c, d]"
  shows "showInt (intOfDigits [a, b, c, d]) = [a, b, c, d]"
proof -
  note A = digit_char [OF assms(1)] and B = digit_char [OF assms(2)]
    and C = digit_char [OF assms(3)] and D = digit_char [OF assms(4)]
  have flat: "intOfDigits [a, b, c, d] =
      1000 * digitVal a + 100 * digitVal b + 10 * digitVal c + digitVal d"
    by (simp add: intOfDigits_def)
  have a1: "1 \<le> digitVal a"
    using assms(5) A(1) B(2) C(2) D(2) unfolding flat by linarith
  have n1: "1 \<le> 10 * digitVal a + digitVal b"
    using a1 B(1) by linarith
  have "10 * (10 * digitVal a + digitVal b) = 100 * digitVal a + 10 * digitVal b"
    by simp
  then have n2: "1 \<le> 10 * (10 * digitVal a + digitVal b) + digitVal c"
    using a1 B(1) C(1) by linarith
  have nested: "intOfDigits [a, b, c, d] =
      10 * (10 * (10 * digitVal a + digitVal b) + digitVal c) + digitVal d"
    by (simp add: intOfDigits_def)
  have "showDigits (intOfDigits [a, b, c, d]) = (([a] @ [b]) @ [c]) @ [d]"
    unfolding nested
    by (simp only: showDigits_step [OF n2 D(1,2)] showDigits_step [OF n1 C(1,2)]
        showDigits_step [OF a1 B(1,2)] showDigits_digit [OF A(1,2)] A(3) B(3) C(3) D(3))
  then have "showDigits (intOfDigits [a, b, c, d]) = [a, b, c, d]" by simp
  with assms(5) show ?thesis by (simp add: showInt_def)
qed

lemma show_two:
  assumes "isDigit e" "isDigit f"
  shows "padStart 2 (CHR ''0'') (showInt (intOfDigits [e, f])) = [e, f]"
proof -
  note E = digit_char [OF assms(1)] and F = digit_char [OF assms(2)]
  have v: "intOfDigits [e, f] = 10 * digitVal e + digitVal f"
    by (simp add: intOfDigits_def)
  show ?thesis
  proof (cases "digitVal e = 0")
    case True
    with E have "e = CHR ''0''" by auto
    with True F show ?thesis
      unfolding v by (simp add: showInt_def showDigits_digit padStart_def)
  next
    case False
    with E(1) have "1 \<le> digitVal e" by linarith
    with E F show ?thesis
      unfolding v by (simp add: showInt_def showDigits_step showDigits_digit padStart_def)
  qed
qed


lemma ten_chars:
  assumes "length (s :: string) = 10"
  obtains c0 c1 c2 c3 c4 c5 c6 c7 c8 c9 where "s = [c0, c1, c2, c3, c4, c5, c6, c7, c8, c9]"
  using assms by (auto simp: numeral_eq_Suc length_Suc_conv)

section \<open>Facts about role detection\<close>

lemma classifyProps_foldl:
  "foldl (\<lambda>(dateProps, numberProps, stringProps) propId.
              (case getValue e propId of
                 None \<Rightarrow> (dateProps, numberProps, stringProps)
               | Some (DateValue v) \<Rightarrow> (dateProps @ [propId], numberProps, stringProps)
               | Some (NumberValue v) \<Rightarrow> (dateProps, numberProps @ [propId], stringProps)
               | Some other \<Rightarrow> (dateProps, numberProps, stringProps @ [propId])))
       (d, n, s) ps =
   (d @ filter (\<lambda>p. case getValue e p of Some (DateValue v) \<Rightarrow> True | _ \<Rightarrow> False) ps,
    n @ filter (\<lambda>p. case getValue e p of Some (NumberValue v) \<Rightarrow> True | _ \<Rightarrow> False) ps,
    s @ filter (\<lambda>p. case getValue e p of Some NullValue \<Rightarrow> True | Some (OtherValue v) \<Rightarrow> True
                     | _ \<Rightarrow> False) ps)"
  by (induction ps arbitrary: d n s) (auto split: option.splits Value.splits)

lemma classifyProps_filter:
  "classifyProps e ps =
   (filter (\<lambda>p. case getValue e p of Some (DateValue v) \<Rightarrow> True | _ \<Rightarrow> False) ps,
    filter (\<lambda>p. case getValue e p of Some (NumberValue v) \<Rightarrow> True | _ \<Rightarrow> False) ps,
    filter (\<lambda>p. case getValue e p of Some NullValue \<Rightarrow> True | Some (OtherValue v) \<Rightarrow> True
                 | _ \<Rightarrow> False) ps)"
  using classifyProps_foldl [of e "[]" "[]" "[]" ps] by (simp add: classifyProps_def)

lemma classifyProps_cong:
  assumes "\<forall>p \<in> set ps. getValue e p = getValue e' p"
  shows "classifyProps e ps = classifyProps e' ps"
  unfolding classifyProps_filter using assms by (auto intro!: filter_cong)

lemma findByKeywords_mem: "findByKeywords ps ks = Some p \<Longrightarrow> p \<in> set ps"
  by (auto simp: findByKeywords_def find_Some_iff)

lemma find_mem: "find P xs = Some x \<Longrightarrow> x \<in> set xs"
  by (auto simp: find_Some_iff)

lemma hd_mem: "0 < length xs \<Longrightarrow> hd xs \<in> set xs"
  by (cases xs) auto

lemma autoDetect_roles_classified:
  assumes "r = autoDetectProperties (e # es) allProperties"
  shows "(start_role r = Some p \<longrightarrow> p \<in> set (fst (classifyProps e allProperties))) \<and>
         (end_role r = Some p \<longrightarrow> p \<in> set (fst (classifyProps e allProperties))) \<and>
         (progress_role r = Some p \<longrightarrow>
            p \<in> set (fst (snd (classifyProps e allProperties)))) \<and>
         (dependencies_role r = Some p \<longrightarrow>
            p \<in> set (snd (snd (classifyProps e allProperties)))) \<and>
         (colorBy_role r = Some p \<longrightarrow>
            p \<in> set (snd (snd (classifyProps e allProperties))))"
proof -
  obtain d n s where c: "classifyProps e allProperties = (d, n, s)"
    by (cases "classifyProps e allProperties") auto
  have "start_role r = Some p \<Longrightarrow> p \<in> set d"
    unfolding assms autoDetectProperties_def
    using findByKeywords_mem [of d _ p] hd_mem [of d]
    by (auto simp: c Let_def split: if_splits)
  moreover have "end_role r = Some p \<Longrightarrow> p \<in> set d"
    unfolding assms autoDetectProperties_def
    using findByKeywords_mem [of d _ p] find_mem [of _ d p]
    by (auto simp: c Let_def split: if_splits)
  moreover have "progress_role r = Some p \<Longrightarrow> p \<in> set n"
    unfolding assms autoDetectProperties_def
    using findByKeywords_mem [of n _ p] by (auto simp: c Let_def)
  moreover have "dependencies_role r = Some p \<Longrightarrow> p \<in> set s"
    unfolding assms autoDetectProperties_def
    using findByKeywords_mem [of s _ p] by (auto simp: c Let_def)
  moreover have "colorBy_role r = Some p \<Longrightarrow> p \<in> set s"
    unfolding assms autoDetectProperties_def
    using findByKeywords_mem [of s _ p] by (auto simp: c Let_def)
  ultimately show ?thesis by (simp add: c)
qed

text \<open>The loop skips a property only when \<^verbatim>\<open>getValue\<close> returns \<^verbatim>\<open>null\<close>. The host's null
  object is a value to it, of neither the date nor the number class, and is counted with the
  text properties.\<close>

lemma null_object_is_classified:
  "classifyProps (noteFile ''Trip'' [(''note.status'', NullValue)]) [''note.status''] =
     ([], [], [''note.status''])"
  by code_simp

lemma parseIsoLocal_date_only:
  assumes "isDateOnly s"
  shows "parseIsoLocal (s @ ''T00:00:00'') =
     newDateLocal (intOfDigits (take 4 s)) (intOfDigits (take 2 (drop 5 s)))
       (intOfDigits (take 2 (drop 8 s))) 0 0 0"
proof -
  from assms have "length s = 10" by (simp add: isDateOnly_def)
  then obtain c0 c1 c2 c3 c4 c5 c6 c7 c8 c9
    where s: "s = [c0, c1, c2, c3, c4, c5, c6, c7, c8, c9]" by (rule ten_chars)
  have z: "isDigit (CHR ''0'')" by (simp add: isDigit_def)
  from assms z show ?thesis
    by (simp add: s parseIsoLocal_def isIsoLocal_def isDateTime_def isDateOnly_def
        intOfDigits_def digitVal_def)
qed

section \<open>Claims about the mapping of records\<close>


text \<open>
  The order above is the order of the dates the stored strings denote. As strings they are
  in the same order as long as the year keeps its number of digits; the day after
  31 December 9999 is written with five digits and is, as a string, below its start.
\<close>

lemma year_rollover_strings:
  "map (\<lambda>t. (start t, end_task t)) (mapEntriesToTasks fixedZone
     [noteFile ''Far'' [(''note.start'', DateValue ''9999-12-31'')]] rolesConfig) =
     [(''9999-12-31'', ''10000-01-01'')] \<and>
   ''10000-01-01'' < ''9999-12-31''"
  by code_simp

text \<open>Instances in \<^const>\<open>fixedZone\<close>. A day beyond the end of its month is read as V8
  reads it: a record that starts on 30 February is mapped and starts on 2 March, and an end
  of 31 February, which is 3 March, is kept after a start of 1 March.\<close>

lemma day_overflow_mapped:
  "map (\<lambda>t. (filePath t, start t, end_task t)) (mapEntriesToTasks fixedZone
     [noteFile ''Plan'' [(''note.start'', DateValue ''2026-02-30'')],
      noteFile ''Draft'' [(''note.start'', DateValue ''2026-03-01''),
                          (''note.end'', DateValue ''2026-02-31'')]] rolesConfig) =
     [(''Draft.md'', ''2026-03-01'', ''2026-03-03''),
      (''Plan.md'', ''2026-03-02'', ''2026-03-03'')]"
  by code_simp



text \<open>
  C2. The round trip \<open>format (parse s) = s\<close> fails on a valid date whose year has a leading
  zero: \<^const>\<open>formatDateForGantt\<close> pads the month and the day to two digits and writes the
  year as it is, so the string \<open>0999-01-01\<close>, which the date-only pattern accepts, comes
  back as \<open>999-01-01\<close>.
\<close>

theorem formatDateForGantt_year_not_padded:
  "isDateOnly ''0999-01-01'' \<and>
   map_option (formatDateForGantt fixedZone) (parseObsidianDate fixedZone (Some ''0999-01-01'')) =
     Some ''999-01-01''"
  by code_simp

text \<open>
  C4. The claim judges the equality of start and end on their formatted days; the code
  compares the time values. A record that starts at 10:00 and ends at 12:00 of the same day
  has equal formatted days and is not a milestone.
\<close>

theorem milestone_by_formatted_day_counterexample:
  "map isMilestone (mapEntriesToTasks fixedZone
     [noteFile ''Review'' [(''note.start'', OtherValue ''2026-03-15 10:00''),
                           (''note.end'', OtherValue ''2026-03-15 12:00'')]] rolesConfig) =
     [False] \<and>
   map_option (formatDateForGantt fixedZone)
     (parseObsidianDate fixedZone (Some ''2026-03-15 10:00'')) = Some ''2026-03-15'' \<and>
   map_option (formatDateForGantt fixedZone)
     (parseObsidianDate fixedZone (Some ''2026-03-15 12:00'')) = Some ''2026-03-15''"
  by code_simp

text \<open>
  C4, amended. In a runtime where the next day is later than the day it follows, a mapped
  task is a milestone exactly when the end value of its record parses to the same time value
  as the start; then the stored end is the start plus one day and the flag stays set. Which
  texts parse to one time value is the runtime's matter: two texts that its parser reads as
  one instant make a milestone, however they are written.
\<close>

theorem milestone_iff_same_instant:
  assumes "\<And>a. a < nextDay rt a"
    and "t \<in> set (mapEntriesToTasks rt entries config)"
  shows "\<exists>entry \<in> set entries. \<exists>startDate.
      filePath t = path entry \<and>
      entryStartDate rt config entry = Some startDate \<and>
      (isMilestone t \<longleftrightarrow> entryEndDate rt config entry = Some startDate) \<and>
      (isMilestone t \<longrightarrow> end_task t = formatDateForGantt rt (nextDay rt startDate))"
proof -
  from mapEntriesToTasks_mem [OF assms(2)] obtain entry where e: "entry \<in> set entries"
    and m: "mapEntry rt config (buildNameToId entries) (buildColorValues config entries) entry
      = Some t" by blast
  from m obtain startDate where sd: "entryStartDate rt config entry = Some startDate"
    by (auto simp: mapEntry_def split: option.splits)
  from m sd have "filePath t = path entry"
    and "isMilestone t \<longleftrightarrow> startDate = defaultedEnd rt startDate (entryEndDate rt config entry)"
    and "isMilestone t \<longrightarrow> end_task t = formatDateForGantt rt (nextDay rt startDate)"
    by (auto simp: mapEntry_def Let_def)
  with e sd show ?thesis
    using defaultedEnd_eq_start [of rt startDate "entryEndDate rt config entry", OF assms(1)]
    by metis
qed

text \<open>
  So in any such runtime a record whose start and end texts the parser reads as one instant
  is a milestone. (Where the clocks skip an hour, an engine reads a text of the skipped hour
  as an instant of the hour after it; a start written in the skipped hour and an end written
  one hour later can then be one instant.)
\<close>

lemma same_instant_is_milestone:
  assumes "\<And>a. a < nextDay rt a"
    and "parseObsidianDate rt (Some startText) = Some d"
    and "parseObsidianDate rt (Some endText) = Some d"
  shows "map (\<lambda>t. (isMilestone t, custom_class t, end_task t)) (mapEntriesToTasks rt
      [noteFile n [(''note.start'', OtherValue startText), (''note.end'', OtherValue endText)]]
      rolesConfig) = [(True, ''gantt-milestone'', formatDateForGantt rt (nextDay rt d))]"
proof -
  let ?e = "noteFile n [(''note.start'', OtherValue startText), (''note.end'', OtherValue endText)]"
  have s: "entryStartDate rt rolesConfig ?e = Some d"
    using assms(2)
    by (simp add: entryStartDate_def rolesConfig_def role_def getValue_def noteFile_def
        extractRawValue_def)
  have e: "entryEndDate rt rolesConfig ?e = Some d"
    using assms(3)
    by (simp add: entryEndDate_def rolesConfig_def role_def getValue_def noteFile_def
        extractRawValue_def)
  have c: "entryColorClass rolesConfig cv ?e = []" for cv
    by (simp add: entryColorClass_def rolesConfig_def role_def)
  have d: "defaultedEnd rt d (Some d) = d"
    using defaultedEnd_eq_start [of rt d "Some d", OF assms(1)] by simp
  have r: "role (startProperty rolesConfig) \<noteq> None"
    by (simp add: rolesConfig_def role_def)
  show ?thesis
    using r by (simp add: mapEntriesToTasks_def Let_def List.map_filter_def mapEntry_def s e c d
        sortByDependencies_def)
qed

text \<open>Instances in \<^const>\<open>fixedZone\<close>. Two texts of one instant: 30 February is 2 March,
  so a record that starts on 2 March and ends on 30 February is a milestone.\<close>

lemma day_overflow_milestone:
  "map (\<lambda>t. (start t, end_task t, isMilestone t, custom_class t)) (mapEntriesToTasks fixedZone
     [noteFile ''Launch'' [(''note.start'', DateValue ''2026-03-02''),
                           (''note.end'', DateValue ''2026-02-30'')]] rolesConfig) =
     [(''2026-03-02'', ''2026-03-03'', True, ''gantt-milestone'')]"
  by code_simp

lemma milestone_mapped:
  "mapEntriesToTasks fixedZone
     [noteFile ''Launch'' [(''note.start'', DateValue ''2026-03-15''),
                           (''note.end'', DateValue ''2026-03-15'')]] rolesConfig =
   [\<lparr>id_task = ''Launch.md'', name = ''Launch'', start = ''2026-03-15'',
     end_task = ''2026-03-16'', progress = 0, dependencies = [],
     custom_class = ''gantt-milestone'', filePath = ''Launch.md'', isMilestone = True\<rparr>]"
  by code_simp

theorem milestone_iff_same_instant_witness:
  "\<lparr>id_task = ''Launch.md'', name = ''Launch'', start = ''2026-03-15'',
     end_task = ''2026-03-16'', progress = 0, dependencies = [],
     custom_class = ''gantt-milestone'', filePath = ''Launch.md'', isMilestone = True\<rparr>
     \<in> set (mapEntriesToTasks fixedZone
       [noteFile ''Launch'' [(''note.start'', DateValue ''2026-03-15''),
                             (''note.end'', DateValue ''2026-03-15'')]] rolesConfig) \<and>
   (\<exists>entry \<in> set [noteFile ''Launch'' [(''note.start'', DateValue ''2026-03-15''),
                                        (''note.end'', DateValue ''2026-03-15'')]].
     \<exists>startDate.
      ''Launch.md'' = path entry \<and>
      entryStartDate fixedZone rolesConfig entry = Some startDate \<and>
      entryEndDate fixedZone rolesConfig entry = Some startDate \<and>
      ''2026-03-16'' = formatDateForGantt fixedZone (nextDay fixedZone startDate))"
  using milestone_iff_same_instant [of fixedZone
     "\<lparr>id_task = ''Launch.md'', name = ''Launch'', start = ''2026-03-15'',
       end_task = ''2026-03-16'', progress = 0, dependencies = [],
       custom_class = ''gantt-milestone'', filePath = ''Launch.md'', isMilestone = True\<rparr>"
     "[noteFile ''Launch'' [(''note.start'', DateValue ''2026-03-15''),
                            (''note.end'', DateValue ''2026-03-15'')]]" rolesConfig,
     OF fixedZone_nextDay_later]
  by (simp add: milestone_mapped)

text \<open>
  C7. Two parts of the claim fail, both through \<^verbatim>\<open>parseFloat\<close>, the function the code reads
  the value with. The number read is clamped and never rounded, so the value \<open>42.5\<close> is
  stored as it is and the progress is not an integer. And \<^verbatim>\<open>parseFloat\<close> reads the number
  a text begins with and ignores what follows it, so a value that is not a number is not
  always taken as 0: the text \<open>12abc\<close> gives 12, and the text of a date, \<open>2026-03-15\<close>,
  gives 2026 and so 100.
\<close>

theorem progress_integer_counterexample:
  "map progress (mapEntriesToTasks fixedZone
     [noteFile ''Build'' [(''note.start'', DateValue ''2026-03-15''),
                          (''note.progress'', NumberValue ''42.5'')]] rolesConfig) = [85 / 2] \<and>
   (85 / 2 :: real) \<notin> \<int> \<and>
   \<not> isDecimalNumber ''12abc'' \<and>
   map progress (mapEntriesToTasks fixedZone
     [noteFile ''Build'' [(''note.start'', DateValue ''2026-03-15''),
                          (''note.progress'', OtherValue ''12abc'')]] rolesConfig) = [12] \<and>
   \<not> isDecimalNumber ''2026-03-15'' \<and>
   map progress (mapEntriesToTasks fixedZone
     [noteFile ''Build'' [(''note.start'', DateValue ''2026-03-15''),
                          (''note.progress'', DateValue ''2026-03-15'')]] rolesConfig) = [100]"
proof (intro conjI)
  show "map progress (mapEntriesToTasks fixedZone
     [noteFile ''Build'' [(''note.start'', DateValue ''2026-03-15''),
                          (''note.progress'', NumberValue ''42.5'')]] rolesConfig) = [85 / 2]"
    by code_simp
  show "(85 / 2 :: real) \<notin> \<int>"
  proof
    assume "(85 / 2 :: real) \<in> \<int>"
    then obtain n :: int where "(85 / 2 :: real) = of_int n" by (auto elim: Ints_cases)
    then have "(of_int (2 * n) :: real) = of_int 85" by simp
    then have "2 * n = 85" by (simp only: of_int_eq_iff)
    then show False by presburger
  qed
  show "\<not> isDecimalNumber ''12abc''" by code_simp
  show "map progress (mapEntriesToTasks fixedZone
     [noteFile ''Build'' [(''note.start'', DateValue ''2026-03-15''),
                          (''note.progress'', OtherValue ''12abc'')]] rolesConfig) = [12]"
    by code_simp
  show "\<not> isDecimalNumber ''2026-03-15''" by code_simp
  show "map progress (mapEntriesToTasks fixedZone
     [noteFile ''Build'' [(''note.start'', DateValue ''2026-03-15''),
                          (''note.progress'', DateValue ''2026-03-15'')]] rolesConfig) = [100]"
    by code_simp
qed

text \<open>
  C7, amended. The progress of a mapped task is a number between 0 and 100. It is 0 unless
  progress display is on, a progress role is assigned and the record has a value for it;
  then the text of the value is read by \<^verbatim>\<open>parseFloat\<close>: when the text begins with a number
  the progress is that number clamped to the range, without rounding and whatever follows
  the number, and when it does not the progress is 0.
\<close>

theorem mapped_task_progress:
  assumes "t \<in> set (mapEntriesToTasks rt entries config)"
  shows "0 \<le> progress t \<and> progress t \<le> 100 \<and>
    (\<exists>entry \<in> set entries. filePath t = path entry \<and>
      (case (if showProgress config then role (progressProperty config) else None) of
         None \<Rightarrow> progress t = 0
       | Some p \<Rightarrow>
           (case extractRawValue (getValue entry p) of
              None \<Rightarrow> progress t = 0
            | Some raw \<Rightarrow>
                (case parseFloat raw of
                   NaN \<Rightarrow> progress t = 0
                 | PosInf \<Rightarrow> progress t = 100
                 | NegInf \<Rightarrow> progress t = 0
                 | Fin x \<Rightarrow> progress t = max 0 (min 100 x)))))"
proof -
  from mapEntriesToTasks_mem [OF assms] obtain entry where e: "entry \<in> set entries"
    and m: "mapEntry rt config (buildNameToId entries) (buildColorValues config entries) entry
      = Some t" by blast
  from m have p: "progress t = entryProgress config entry" and f: "filePath t = path entry"
    by (auto simp: mapEntry_def Let_def split: option.splits)
  have c: "case (if showProgress config then role (progressProperty config) else None) of
         None \<Rightarrow> progress t = 0
       | Some p \<Rightarrow>
           (case extractRawValue (getValue entry p) of
              None \<Rightarrow> progress t = 0
            | Some raw \<Rightarrow>
                (case parseFloat raw of
                   NaN \<Rightarrow> progress t = 0
                 | PosInf \<Rightarrow> progress t = 100
                 | NegInf \<Rightarrow> progress t = 0
                 | Fin x \<Rightarrow> progress t = max 0 (min 100 x)))"
    unfolding p
    by (simp add: entryProgress_def clampProgress_def Let_def split: option.splits jsnum.splits)
  have r: "0 \<le> progress t \<and> progress t \<le> 100"
    unfolding p by (rule entryProgress_range)
  from e f c r show ?thesis by blast
qed

lemma over_range_progress_mapped:
  "mapEntriesToTasks fixedZone
     [noteFile ''Build'' [(''note.start'', DateValue ''2026-03-15''),
                          (''note.progress'', NumberValue ''250'')]] rolesConfig =
   [\<lparr>id_task = ''Build.md'', name = ''Build'', start = ''2026-03-15'',
     end_task = ''2026-03-16'', progress = 100, dependencies = [], custom_class = [],
     filePath = ''Build.md'', isMilestone = False\<rparr>]"
  by code_simp

theorem mapped_task_progress_witness:
  "\<lparr>id_task = ''Build.md'', name = ''Build'', start = ''2026-03-15'',
     end_task = ''2026-03-16'', progress = 100, dependencies = [], custom_class = [],
     filePath = ''Build.md'', isMilestone = False\<rparr>
     \<in> set (mapEntriesToTasks fixedZone
       [noteFile ''Build'' [(''note.start'', DateValue ''2026-03-15''),
                            (''note.progress'', NumberValue ''250'')]] rolesConfig) \<and>
   parseFloat ''250'' = Fin 250 \<and>
   progress \<lparr>id_task = ''Build.md'', name = ''Build'', start = ''2026-03-15'',
     end_task = ''2026-03-16'', progress = 100, dependencies = [], custom_class = [],
     filePath = ''Build.md'', isMilestone = False\<rparr> \<le> 100"
proof -
  have "parseFloat ''250'' = Fin 250" by code_simp
  then show ?thesis
    using mapped_task_progress [of
       "\<lparr>id_task = ''Build.md'', name = ''Build'', start = ''2026-03-15'',
         end_task = ''2026-03-16'', progress = 100, dependencies = [], custom_class = [],
         filePath = ''Build.md'', isMilestone = False\<rparr>" fixedZone
       "[noteFile ''Build'' [(''note.start'', DateValue ''2026-03-15''),
                             (''note.progress'', NumberValue ''250'')]]" rolesConfig]
    by (simp add: over_range_progress_mapped)
qed

text \<open>
  C5. The ids of the tasks of one render pass are not always distinct.
  \<^const>\<open>makeTaskId\<close> writes an underscore for every space of the path, so the notes
  \<open>Task A.md\<close> and \<open>Task_A.md\<close> have one id. In a grouped view \<^const>\<open>onDataUpdated\<close>
  maps each group by itself and appends the results: with the two notes in two groups the
  list it renders holds the id \<open>Task_A.md\<close> twice, for two different files.
\<close>

theorem render_pass_ids_repeat:
  "map (\<lambda>t. (id_task t, filePath t))
     (onDataUpdated fixedZone [spaceNote, underscoreNote] twoGroups rolesConfig) =
     [(''__group__0'', []), (''Task_A.md'', ''Task A.md''),
      (''__group__1'', []), (''Task_A.md'', ''Task_A.md'')] \<and>
   \<not> distinct (map id_task
     (onDataUpdated fixedZone [spaceNote, underscoreNote] twoGroups rolesConfig))"
  by code_simp

text \<open>In a view without groups the same two notes give one task: the sorter goes through
  the set of ids, and the note \<open>Task A.md\<close> is not shown at all.\<close>

lemma colliding_paths_mapped:
  "map (\<lambda>t. (id_task t, filePath t))
     (onDataUpdated fixedZone [spaceNote, underscoreNote]
        [\<lparr>key_group = None, entries_group = [spaceNote, underscoreNote]\<rparr>] rolesConfig) =
   [(''Task_A.md'', ''Task_A.md'')]"
  by code_simp

section \<open>Claims about dependency links\<close>

text \<open>
  C6. The plain-name fallback is not taken whenever no bracketed link is found: the code
  also requires that the text does not contain \<open>[[\<close>. In the text below no link is found
  (the brackets are never closed), the plain name \<open>Research\<close> would resolve, and the result
  is empty.
\<close>

theorem plain_name_fallback_counterexample:
  "wikiLinkTargets ''Research, [[Design'' = [] \<and>
   resolveDepIds (buildNameToId [noteFile ''Research'' [], noteFile ''Design'' []])
     ''Research, [[Design'' = [] \<and>
   concat (map (lookupId (buildNameToId [noteFile ''Research'' [], noteFile ''Design'' []]))
     (filter (\<lambda>s. s \<noteq> []) (map trim (splitOn (CHR '','') ''Research, [[Design'')))) =
     [''Research.md'']"
  by code_simp

text \<open>
  C6, amended. Every bracketed link target of the dependency text is trimmed and looked up
  in the name index. The comma-separated plain names are looked up exactly when the text
  does not contain \<open>[[\<close>, which implies that no bracketed link was found, and never token by
  token. Every id of the result is an id of the index: a name that resolves to no record
  contributes nothing. Whether a record is mapped depends on its start alone.
\<close>

theorem dependency_resolution:
  "resolveDepIds nameToId depStr =
     (if includesStr depStr ''[[''
      then concat (map (\<lambda>linkTarget. lookupId nameToId (trim linkTarget))
             (wikiLinkTargets depStr))
      else concat (map (lookupId nameToId)
             (filter (\<lambda>s. s \<noteq> []) (map trim (splitOn (CHR '','') depStr))))) \<and>
   (wikiLinkTargets depStr \<noteq> [] \<longrightarrow> includesStr depStr ''[['') \<and>
   set (resolveDepIds nameToId depStr) \<subseteq> snd ` set nameToId \<and>
   (mapEntry rt config nameToId colorValues entry = None \<longleftrightarrow>
      entryStartDate rt config entry = None)"
proof (intro conjI)
  show "resolveDepIds nameToId depStr =
     (if includesStr depStr ''[[''
      then concat (map (\<lambda>linkTarget. lookupId nameToId (trim linkTarget))
             (wikiLinkTargets depStr))
      else concat (map (lookupId nameToId)
             (filter (\<lambda>s. s \<noteq> []) (map trim (splitOn (CHR '','') depStr)))))"
    using no_brackets_no_links [of depStr] by (simp add: resolveDepIds_def Let_def)
  show "wikiLinkTargets depStr \<noteq> [] \<longrightarrow> includesStr depStr ''[[''"
    using no_brackets_no_links [of depStr] by blast
  show "set (resolveDepIds nameToId depStr) \<subseteq> snd ` set nameToId"
    using lookupId_subset [of nameToId] by (auto simp: resolveDepIds_def Let_def split: if_splits)
  show "mapEntry rt config nameToId colorValues entry = None \<longleftrightarrow>
      entryStartDate rt config entry = None"
    by (simp add: mapEntry_def Let_def split: option.splits)
qed

lemma links_resolved:
  "includesStr ''[[Research]], [[Design|the design]], [[Missing]], Design'' ''[['' \<and>
   wikiLinkTargets ''[[Research]], [[Design|the design]], [[Missing]], Design'' =
     [''Research'', ''Design'', ''Missing''] \<and>
   resolveDepIds (buildNameToId [noteFile ''Research'' [], noteFile ''Design'' []])
     ''[[Research]], [[Design|the design]], [[Missing]], Design'' =
     [''Research.md'', ''Design.md'']"
  by code_simp

theorem dependency_resolution_witness:
  "wikiLinkTargets ''[[Research]], [[Design|the design]], [[Missing]], Design'' \<noteq> [] \<and>
   includesStr ''[[Research]], [[Design|the design]], [[Missing]], Design'' ''[['' \<and>
   resolveDepIds (buildNameToId [noteFile ''Research'' [], noteFile ''Design'' []])
     ''[[Research]], [[Design|the design]], [[Missing]], Design'' =
   concat (map (\<lambda>linkTarget.
       lookupId (buildNameToId [noteFile ''Research'' [], noteFile ''Design'' []])
         (trim linkTarget))
     (wikiLinkTargets ''[[Research]], [[Design|the design]], [[Missing]], Design'')) \<and>
   resolveDepIds (buildNameToId [noteFile ''Research'' [], noteFile ''Design'' []])
     ''[[Research]], [[Design|the design]], [[Missing]], Design'' =
     [''Research.md'', ''Design.md'']"
  using dependency_resolution [of
      "buildNameToId [noteFile ''Research'' [], noteFile ''Design'' []]"
      "''[[Research]], [[Design|the design]], [[Missing]], Design''"]
    links_resolved
  by auto

section \<open>Claims about the dependency order\<close>

text \<open>
  C3. The code is not the algorithm as the claim words it, and its output does not always
  hold each input task once. First, an id that names no task of the set never blocks a task
  (the code keeps a dependency only if \<^verbatim>\<open>taskMap.has(id)\<close>): below, \<open>A\<close> lists the id of a
  record that has no task, the code places \<open>A\<close> and then \<open>B\<close>, and the worded algorithm
  finds no task that qualifies and falls back to the order by start, \<open>B\<close> then \<open>A\<close>. Second,
  the loop runs over the set of ids: of two tasks with one id (the paths \<open>Task A.md\<close> and
  \<open>Task_A.md\<close>) only the later one is returned.
\<close>

theorem sortByDependencies_spec_counterexample:
  "sortByDependencies
     [plainTask ''A.md'' ''A.md'' ''2026-01-05'' ''Ghost.md'',
      plainTask ''B.md'' ''B.md'' ''2026-01-01'' ''A.md''] =
     [plainTask ''A.md'' ''A.md'' ''2026-01-05'' ''Ghost.md'',
      plainTask ''B.md'' ''B.md'' ''2026-01-01'' ''A.md''] \<and>
   specSortLiteral
     [plainTask ''A.md'' ''A.md'' ''2026-01-05'' ''Ghost.md'',
      plainTask ''B.md'' ''B.md'' ''2026-01-01'' ''A.md''] =
     [plainTask ''B.md'' ''B.md'' ''2026-01-01'' ''A.md'',
      plainTask ''A.md'' ''A.md'' ''2026-01-05'' ''Ghost.md''] \<and>
   sortByDependencies
     [plainTask ''Task_A.md'' ''Task A.md'' ''2026-01-01'' [],
      plainTask ''Task_A.md'' ''Task_A.md'' ''2026-01-02'' []] =
     [plainTask ''Task_A.md'' ''Task_A.md'' ''2026-01-02'' []]"
  by code_simp

text \<open>
  C3, amended. For tasks with pairwise distinct ids, \<^const>\<open>sortByDependencies\<close> is the
  described order over the dependency ids that name a task of the set (an id that names none
  is ignored and never blocks): repeatedly the remaining tasks whose in-set dependencies are
  all placed are appended in ascending order of their start strings, and when none
  qualifies, which only a dependency cycle causes, all remaining tasks are appended in that
  order. Its output is then a permutation of its input. The function is total: the loop
  ends on every input, since every round that does not stop removes an id from
  \<open>remaining\<close>.
\<close>

theorem sortByDependencies_refines_spec:
  assumes "distinct (map id_task tasks)"
  shows "sortByDependencies tasks = specSort tasks \<and>
         mset (sortByDependencies tasks) = mset tasks"
proof -
  have eq: "sortByDependencies tasks = specSort tasks"
  proof (cases "length tasks \<le> 1")
    case True
    then show ?thesis by (simp add: sortByDependencies_def specSort_short)
  next
    case False
    then show ?thesis
      using sortLoop_specLoop [OF assms, of tasks "[]"] assms
      by (simp add: sortByDependencies_def specSort_def newSet_distinct)
  qed
  moreover have "mset (specSort tasks) = mset tasks"
    by (simp add: specSort_def mset_specLoop)
  ultimately show ?thesis by simp
qed

text \<open>Instances: a chain listed in reverse, and a cycle of two with an independent
  third task that starts first.\<close>

lemma chain_sorted:
  "sortByDependencies
     [plainTask ''C.md'' ''C.md'' ''2026-01-01'' ''B.md'',
      plainTask ''B.md'' ''B.md'' ''2026-01-02'' ''A.md'',
      plainTask ''A.md'' ''A.md'' ''2026-01-03'' []] =
     [plainTask ''A.md'' ''A.md'' ''2026-01-03'' [],
      plainTask ''B.md'' ''B.md'' ''2026-01-02'' ''A.md'',
      plainTask ''C.md'' ''C.md'' ''2026-01-01'' ''B.md'']"
  by code_simp

lemma cycle_sorted:
  "sortByDependencies
     [plainTask ''A.md'' ''A.md'' ''2026-01-02'' ''B.md'',
      plainTask ''B.md'' ''B.md'' ''2026-01-03'' ''A.md'',
      plainTask ''C.md'' ''C.md'' ''2026-01-01'' []] =
     [plainTask ''C.md'' ''C.md'' ''2026-01-01'' [],
      plainTask ''A.md'' ''A.md'' ''2026-01-02'' ''B.md'',
      plainTask ''B.md'' ''B.md'' ''2026-01-03'' ''A.md'']"
  by code_simp

theorem sortByDependencies_refines_spec_witness:
  "distinct (map id_task
     [plainTask ''A.md'' ''A.md'' ''2026-01-02'' ''B.md'',
      plainTask ''B.md'' ''B.md'' ''2026-01-03'' ''A.md'',
      plainTask ''C.md'' ''C.md'' ''2026-01-01'' []]) \<and>
   specSort
     [plainTask ''A.md'' ''A.md'' ''2026-01-02'' ''B.md'',
      plainTask ''B.md'' ''B.md'' ''2026-01-03'' ''A.md'',
      plainTask ''C.md'' ''C.md'' ''2026-01-01'' []] =
     [plainTask ''C.md'' ''C.md'' ''2026-01-01'' [],
      plainTask ''A.md'' ''A.md'' ''2026-01-02'' ''B.md'',
      plainTask ''B.md'' ''B.md'' ''2026-01-03'' ''A.md''] \<and>
   mset (sortByDependencies
     [plainTask ''A.md'' ''A.md'' ''2026-01-02'' ''B.md'',
      plainTask ''B.md'' ''B.md'' ''2026-01-03'' ''A.md'',
      plainTask ''C.md'' ''C.md'' ''2026-01-01'' []]) =
   mset
     [plainTask ''A.md'' ''A.md'' ''2026-01-02'' ''B.md'',
      plainTask ''B.md'' ''B.md'' ''2026-01-03'' ''A.md'',
      plainTask ''C.md'' ''C.md'' ''2026-01-01'' []]"
proof -
  have d: "distinct (map id_task
     [plainTask ''A.md'' ''A.md'' ''2026-01-02'' ''B.md'',
      plainTask ''B.md'' ''B.md'' ''2026-01-03'' ''A.md'',
      plainTask ''C.md'' ''C.md'' ''2026-01-01'' []])"
    by code_simp
  from sortByDependencies_refines_spec [OF d] cycle_sorted d show ?thesis
    by metis
qed

section \<open>Claims about role detection\<close>

text \<open>
  C9. One field can get two roles. The keyword searches for start and for end run
  independently over the same date fields, so a date field whose name holds a keyword of
  each list (here \<open>calendar-start\<close>, which contains \<open>end\<close> and \<open>start\<close>) is detected as
  both; only the positional fallback for end skips the field chosen as start.
\<close>

theorem autoDetect_one_field_two_roles:
  "autoDetectProperties
     [noteFile ''Trip'' [(''note.calendar-start'', DateValue ''2026-03-15'')]]
     [''note.calendar-start''] =
   \<lparr>start_role = Some ''note.calendar-start'', end_role = Some ''note.calendar-start'',
     dependencies_role = None, progress_role = None, colorBy_role = None\<rparr>"
  by code_simp

text \<open>
  C10. The detected roles depend on the record list through its first record alone: two
  lists whose first records give the same value for every available property get the same
  roles, whatever the other records hold. And a property for which the first record gives
  \<^verbatim>\<open>null\<close> gets no role, whatever the later records hold for it.
\<close>

theorem autoDetect_first_record_alone:
  "((\<forall>q \<in> set allProperties. getValue e q = getValue e' q) \<longrightarrow>
      autoDetectProperties (e # es) allProperties =
      autoDetectProperties (e' # es') allProperties) \<and>
   (getValue e p = None \<longrightarrow>
      start_role (autoDetectProperties (e # es) allProperties) \<noteq> Some p \<and>
      end_role (autoDetectProperties (e # es) allProperties) \<noteq> Some p \<and>
      dependencies_role (autoDetectProperties (e # es) allProperties) \<noteq> Some p \<and>
      progress_role (autoDetectProperties (e # es) allProperties) \<noteq> Some p \<and>
      colorBy_role (autoDetectProperties (e # es) allProperties) \<noteq> Some p)"
proof (intro conjI impI)
  assume "\<forall>q \<in> set allProperties. getValue e q = getValue e' q"
  then show "autoDetectProperties (e # es) allProperties =
      autoDetectProperties (e' # es') allProperties"
    using classifyProps_cong [of allProperties e e'] by (simp add: autoDetectProperties_def)
next
  assume n: "getValue e p = None"
  note r = autoDetect_roles_classified
      [of "autoDetectProperties (e # es) allProperties" e es allProperties p, OF refl]
  show "start_role (autoDetectProperties (e # es) allProperties) \<noteq> Some p"
    using r n by (auto simp: classifyProps_filter)
  show "end_role (autoDetectProperties (e # es) allProperties) \<noteq> Some p"
    using r n by (auto simp: classifyProps_filter)
  show "dependencies_role (autoDetectProperties (e # es) allProperties) \<noteq> Some p"
    using r n by (auto simp: classifyProps_filter)
  show "progress_role (autoDetectProperties (e # es) allProperties) \<noteq> Some p"
    using r n by (auto simp: classifyProps_filter)
  show "colorBy_role (autoDetectProperties (e # es) allProperties) \<noteq> Some p"
    using r n by (auto simp: classifyProps_filter)
qed

text \<open>An instance: the first record has a start and no due date, a later record has a due
  date. The roles are those of a list that holds the first record alone, and the due date
  gets no role.\<close>

lemma first_record_example:
  "autoDetectProperties
     [noteFile ''Trip'' [(''note.start'', DateValue ''2026-03-15'')],
      noteFile ''Later'' [(''note.due'', DateValue ''2026-04-01'')]]
     [''note.start'', ''note.due''] =
   \<lparr>start_role = Some ''note.start'', end_role = None, dependencies_role = None,
     progress_role = None, colorBy_role = None\<rparr>"
  by code_simp

theorem autoDetect_first_record_alone_witness:
  "getValue (noteFile ''Trip'' [(''note.start'', DateValue ''2026-03-15'')]) ''note.start'' =
     getValue (noteFile ''Other'' [(''note.start'', DateValue ''2026-03-15'')]) ''note.start'' \<and>
   getValue (noteFile ''Trip'' [(''note.start'', DateValue ''2026-03-15'')]) ''note.due'' =
     getValue (noteFile ''Other'' [(''note.start'', DateValue ''2026-03-15'')]) ''note.due'' \<and>
   getValue (noteFile ''Trip'' [(''note.start'', DateValue ''2026-03-15'')]) ''note.due'' = None \<and>
   autoDetectProperties
     [noteFile ''Trip'' [(''note.start'', DateValue ''2026-03-15'')],
      noteFile ''Later'' [(''note.due'', DateValue ''2026-04-01'')]]
     [''note.start'', ''note.due''] =
   autoDetectProperties
     [noteFile ''Other'' [(''note.start'', DateValue ''2026-03-15'')]]
     [''note.start'', ''note.due''] \<and>
   end_role (autoDetectProperties
     [noteFile ''Trip'' [(''note.start'', DateValue ''2026-03-15'')],
      noteFile ''Later'' [(''note.due'', DateValue ''2026-04-01'')]]
     [''note.start'', ''note.due'']) \<noteq> Some ''note.due''"
proof -
  have v: "\<forall>q \<in> set [''note.start'', ''note.due''].
      getValue (noteFile ''Trip'' [(''note.start'', DateValue ''2026-03-15'')]) q =
      getValue (noteFile ''Other'' [(''note.start'', DateValue ''2026-03-15'')]) q"
    by (simp add: getValue_def noteFile_def)
  have n: "getValue (noteFile ''Trip'' [(''note.start'', DateValue ''2026-03-15'')])
      ''note.due'' = None"
    by (simp add: getValue_def noteFile_def)
  note autoDetect_first_record_alone [of "[''note.start'', ''note.due'']"
      "noteFile ''Trip'' [(''note.start'', DateValue ''2026-03-15'')]"
      "noteFile ''Other'' [(''note.start'', DateValue ''2026-03-15'')]"
      "[noteFile ''Later'' [(''note.due'', DateValue ''2026-04-01'')]]" "[]" "''note.due''"]
  then have th: "autoDetectProperties
       [noteFile ''Trip'' [(''note.start'', DateValue ''2026-03-15'')],
        noteFile ''Later'' [(''note.due'', DateValue ''2026-04-01'')]]
       [''note.start'', ''note.due''] =
     autoDetectProperties
       [noteFile ''Other'' [(''note.start'', DateValue ''2026-03-15'')]]
       [''note.start'', ''note.due''] \<and>
     end_role (autoDetectProperties
       [noteFile ''Trip'' [(''note.start'', DateValue ''2026-03-15'')],
        noteFile ''Later'' [(''note.due'', DateValue ''2026-04-01'')]]
       [''note.start'', ''note.due'']) \<noteq> Some ''note.due''"
    using v n by blast
  from v have "getValue (noteFile ''Trip'' [(''note.start'', DateValue ''2026-03-15'')])
        ''note.start'' =
      getValue (noteFile ''Other'' [(''note.start'', DateValue ''2026-03-15'')]) ''note.start''"
    and "getValue (noteFile ''Trip'' [(''note.start'', DateValue ''2026-03-15'')])
        ''note.due'' =
      getValue (noteFile ''Other'' [(''note.start'', DateValue ''2026-03-15'')]) ''note.due''"
    by simp_all
  with th n show ?thesis by blast
qed

section \<open>Claims about writing an edit back\<close>

text \<open>
  C8. A progress edit does not always write the record of the edited task. The callback
  looks the task up by its id, and in the render pass of C5 two tasks have the id
  \<open>Task_A.md\<close>; the lookup finds the one set last. Dragging the progress of the task of
  \<open>Task A.md\<close> to 60 leaves that file as it was and writes 60 to \<open>Task_A.md\<close>.
\<close>

theorem progress_edit_writes_other_record:
  "map filePath (onDataUpdated fixedZone [spaceNote, underscoreNote] twoGroups rolesConfig) =
     [[], ''Task A.md'', [], ''Task_A.md''] \<and>
   fieldOf (on_progress_change True
       (onDataUpdated fixedZone [spaceNote, underscoreNote] twoGroups rolesConfig) rolesConfig
       twoNotesVault
       (onDataUpdated fixedZone [spaceNote, underscoreNote] twoGroups rolesConfig ! 1) 60)
     ''Task A.md'' ''progress'' = Some (FmNumber 10) \<and>
   fieldOf (on_progress_change True
       (onDataUpdated fixedZone [spaceNote, underscoreNote] twoGroups rolesConfig) rolesConfig
       twoNotesVault
       (onDataUpdated fixedZone [spaceNote, underscoreNote] twoGroups rolesConfig ! 1) 60)
     ''Task_A.md'' ''progress'' = Some (FmNumber 60)"
  by code_simp

section \<open>Further properties\<close>

text \<open>
  X1. In \<^const>\<open>fixedZone\<close>, a string of the date-only pattern whose year is at least 1000,
  whose month is from 1 to 12 and whose day is a day of that month parses, and formatting
  the parsed date gives the string back. Together with C2 this locates the failure of the
  round trip in the years below 1000; a day beyond the end of the month parses as well and
  comes back as a day of the next month.
\<close>

theorem date_only_round_trip:
  assumes "isDateOnly s" and "1000 \<le> intOfDigits (take 4 s)"
    and "1 \<le> intOfDigits (take 2 (drop 5 s))" and "intOfDigits (take 2 (drop 5 s)) \<le> 12"
    and "1 \<le> intOfDigits (take 2 (drop 8 s))"
    and "intOfDigits (take 2 (drop 8 s)) \<le>
           daysInMonth (intOfDigits (take 4 s)) (intOfDigits (take 2 (drop 5 s)))"
  shows "map_option (formatDateForGantt fixedZone) (parseObsidianDate fixedZone (Some s)) = Some s"
proof -
  from assms(1) have "length s = 10" by (simp add: isDateOnly_def)
  then obtain c0 c1 c2 c3 c4 c5 c6 c7 c8 c9
    where s: "s = [c0, c1, c2, c3, c4, c5, c6, c7, c8, c9]" by (rule ten_chars)
  from assms(1) have dg: "isDigit c0" "isDigit c1" "isDigit c2" "isDigit c3"
      "isDigit c5" "isDigit c6" "isDigit c8" "isDigit c9"
    and hy: "c4 = CHR ''-''" "c7 = CHR ''-''"
    by (simp_all add: isDateOnly_def s)
  have tr: "trim s = s"
    using digit_char(4) [OF dg(1)] digit_char(4) [OF dg(8)] by (simp add: trim_def s)
  have d31: "intOfDigits (take 2 (drop 8 s)) \<le> 31"
    using assms(6) by (simp add: daysInMonth_def split: if_splits)
  have p: "parseObsidianDate fixedZone (Some s) =
      Some (intOfDigits [c0, c1, c2, c3], intOfDigits [c5, c6], intOfDigits [c8, c9], 0)"
    using assms(1,3-6) d31 parseIsoLocal_date_only [OF assms(1)]
    by (simp add: parseObsidianDate_def tr Let_def fixedZone_def newDateLocal_def)
       (simp add: s)
  from assms(2) have y: "1000 \<le> intOfDigits [c0, c1, c2, c3]" by (simp add: s)
  show ?thesis
    unfolding p
    by (simp add: formatDateForGantt_def fixedZone_def Let_def show_four [OF dg(1-4) y]
        show_two [OF dg(5,6)] show_two [OF dg(7,8)] s hy)
qed

lemma date_only_example:
  "isDateOnly ''2026-03-15'' \<and> 1000 \<le> intOfDigits (take 4 ''2026-03-15'') \<and>
   1 \<le> intOfDigits (take 2 (drop 5 ''2026-03-15'')) \<and>
   intOfDigits (take 2 (drop 5 ''2026-03-15'')) \<le> 12 \<and>
   1 \<le> intOfDigits (take 2 (drop 8 ''2026-03-15'')) \<and>
   intOfDigits (take 2 (drop 8 ''2026-03-15'')) \<le>
     daysInMonth (intOfDigits (take 4 ''2026-03-15'')) (intOfDigits (take 2 (drop 5 ''2026-03-15'')))"
  by code_simp

lemma day_overflow_round_trip:
  "map_option (formatDateForGantt fixedZone) (parseObsidianDate fixedZone (Some ''2026-02-30'')) =
     Some ''2026-03-02''"
  by code_simp

theorem date_only_round_trip_witness:
  "isDateOnly ''2026-03-15'' \<and>
   map_option (formatDateForGantt fixedZone) (parseObsidianDate fixedZone (Some ''2026-03-15'')) =
     Some ''2026-03-15''"
  using date_only_round_trip [of "''2026-03-15''"] date_only_example
  by blast

text \<open>
  X2. The ids of the tasks that one call of \<^const>\<open>mapEntriesToTasks\<close> returns are pairwise
  distinct, and each is \<^const>\<open>makeTaskId\<close> of the path of a record of the list. (The
  sorter goes through the set of ids, so of two records with one id one task is returned.)
\<close>

theorem mapped_task_ids_unique:
  "distinct (map id_task (mapEntriesToTasks rt entries config)) \<and>
   (\<forall>t \<in> set (mapEntriesToTasks rt entries config).
      id_task t = makeTaskId (filePath t) \<and> filePath t \<in> set (map path entries))"
proof
  show "distinct (map id_task (mapEntriesToTasks rt entries config))"
    by (simp add: mapEntriesToTasks_def Let_def sortByDependencies_distinct)
  show "\<forall>t \<in> set (mapEntriesToTasks rt entries config).
      id_task t = makeTaskId (filePath t) \<and> filePath t \<in> set (map path entries)"
  proof
    fix t assume "t \<in> set (mapEntriesToTasks rt entries config)"
    from mapEntriesToTasks_mem [OF this] show
      "id_task t = makeTaskId (filePath t) \<and> filePath t \<in> set (map path entries)"
      using mapEntry_id by fastforce
  qed
qed

lemma one_list_mapped:
  "map id_task (mapEntriesToTasks fixedZone [spaceNote, underscoreNote] rolesConfig) =
     [''Task_A.md'']"
  by code_simp

theorem mapped_task_ids_unique_witness:
  "distinct (map id_task (mapEntriesToTasks fixedZone [spaceNote, underscoreNote] rolesConfig)) \<and>
   map id_task (mapEntriesToTasks fixedZone [spaceNote, underscoreNote] rolesConfig) =
     [''Task_A.md'']"
  using mapped_task_ids_unique [of fixedZone "[spaceNote, underscoreNote]" rolesConfig]
    one_list_mapped
  by blast

text \<open>
  X3. A role is only given to a property that has a value on the first record, and of the
  class the role reads: start and end to date values, progress to a number value,
  dependencies and colour to any other value. So roles of different classes never share a
  field.
\<close>

theorem autoDetect_roles_by_value_class:
  assumes "r = autoDetectProperties (e # es) allProperties"
  shows "(start_role r = Some p \<longrightarrow> (\<exists>v. getValue e p = Some (DateValue v))) \<and>
         (end_role r = Some p \<longrightarrow> (\<exists>v. getValue e p = Some (DateValue v))) \<and>
         (progress_role r = Some p \<longrightarrow> (\<exists>v. getValue e p = Some (NumberValue v))) \<and>
         (dependencies_role r = Some p \<longrightarrow>
            getValue e p = Some NullValue \<or> (\<exists>v. getValue e p = Some (OtherValue v))) \<and>
         (colorBy_role r = Some p \<longrightarrow>
            getValue e p = Some NullValue \<or> (\<exists>v. getValue e p = Some (OtherValue v)))"
  using autoDetect_roles_classified [OF assms, of p]
  by (auto simp: classifyProps_filter split: option.splits Value.splits)

lemma autoDetect_example:
  "autoDetectProperties
     [noteFile ''Trip'' [(''note.due-date'', DateValue ''2026-03-20''),
                         (''note.start'', DateValue ''2026-03-15''),
                         (''note.priority'', OtherValue ''High'')]]
     [''note.due-date'', ''note.start'', ''note.priority''] =
   \<lparr>start_role = Some ''note.start'', end_role = Some ''note.due-date'',
     dependencies_role = None, progress_role = None, colorBy_role = Some ''note.priority''\<rparr>"
  by code_simp

theorem autoDetect_roles_by_value_class_witness:
  "autoDetectProperties
     [noteFile ''Trip'' [(''note.due-date'', DateValue ''2026-03-20''),
                         (''note.start'', DateValue ''2026-03-15''),
                         (''note.priority'', OtherValue ''High'')]]
     [''note.due-date'', ''note.start'', ''note.priority''] =
   \<lparr>start_role = Some ''note.start'', end_role = Some ''note.due-date'',
     dependencies_role = None, progress_role = None, colorBy_role = Some ''note.priority''\<rparr> \<and>
   (\<exists>v. getValue (noteFile ''Trip'' [(''note.due-date'', DateValue ''2026-03-20''),
                         (''note.start'', DateValue ''2026-03-15''),
                         (''note.priority'', OtherValue ''High'')]) ''note.start'' =
      Some (DateValue v))"
  using autoDetect_roles_by_value_class [OF autoDetect_example [symmetric], of "''note.start''"]
    autoDetect_example
  by simp

text \<open>
  X4. When the ids of the rendered tasks are pairwise distinct, a progress edit on a task of
  the list, with a progress role assigned, changes at most one field, and of the file of that
  task: no file appears or disappears, every field other than the progress field of the
  task's file keeps its value, that field becomes the rounded progress when the file exists
  and progress display is on, and when the file does not exist the vault is unchanged.
\<close>

theorem progress_edit_writes_one_field:
  assumes "distinct (map id_task currentTasks)" and "t \<in> set currentTasks"
    and "role (progressProperty mapperConfig) = Some p"
  shows "(\<forall>f. (on_progress_change displayProgress currentTasks mapperConfig v t newProgress f
                  = None) = (v f = None)) \<and>
         (\<forall>f k. (f, k) \<noteq> (filePath t, extractPropertyName p) \<longrightarrow>
            fieldOf (on_progress_change displayProgress currentTasks mapperConfig v t newProgress)
              f k = fieldOf v f k) \<and>
         (displayProgress \<and> v (filePath t) \<noteq> None \<longrightarrow>
            fieldOf (on_progress_change displayProgress currentTasks mapperConfig v t newProgress)
              (filePath t) (extractPropertyName p) = Some (FmNumber (mathRound newProgress))) \<and>
         (v (filePath t) = None \<longrightarrow>
            on_progress_change displayProgress currentTasks mapperConfig v t newProgress = v)"
  using findTask_distinct [OF assms(1,2)] assms(3)
  by (auto simp: on_progress_change_def Let_def writeFrontmatter_frame writeFrontmatter_files
      writeFrontmatter_written writeFrontmatter_missing)

lemma progress_edit_example:
  "distinct (map id_task [buildTask]) \<and>
   role (progressProperty rolesConfig) = Some ''note.progress'' \<and>
   extractPropertyName ''note.progress'' = ''progress'' \<and>
   filePath buildTask = ''Build.md'' \<and> mathRound (85 / 2) = 43"
  by code_simp

theorem progress_edit_writes_one_field_witness:
  "distinct (map id_task [buildTask]) \<and>
   fieldOf (on_progress_change True [buildTask] rolesConfig exampleVault buildTask (85 / 2))
     ''Build.md'' ''progress'' = Some (FmNumber 43) \<and>
   fieldOf (on_progress_change True [buildTask] rolesConfig exampleVault buildTask (85 / 2))
     ''Build.md'' ''status'' = fieldOf exampleVault ''Build.md'' ''status'' \<and>
   fieldOf (on_progress_change True [buildTask] rolesConfig exampleVault buildTask (85 / 2))
     ''Design.md'' ''progress'' = fieldOf exampleVault ''Design.md'' ''progress''"
proof -
  have d: "distinct (map id_task [buildTask])" by simp
  have r: "role (progressProperty rolesConfig) = Some ''note.progress''"
    using progress_edit_example by blast
  note t = progress_edit_writes_one_field [OF d _ r, of buildTask True exampleVault "85 / 2"]
  have "exampleVault ''Build.md'' \<noteq> None" by (simp add: exampleVault_def)
  with t progress_edit_example show ?thesis by auto
qed

end
